theory Spec2Isabelle
  imports Main
begin

section \<open>Devcontainer Nix Injector: the setup pipeline of \<^verbatim>\<open>src/dni/main.py\<close>\<close>

text \<open>
  A Python \<^verbatim>\<open>str\<close> is modelled as a \<^typ>\<open>string\<close>: a list of characters, each character a
  code point below 256. The program's own literals are ASCII.
\<close>

subsection \<open>Subprocesses, printed lines and exceptions\<close>

text \<open>
  \<^verbatim>\<open>subprocess.CompletedProcess\<close>: the argument vector and the return code. The field
  \<open>captured\<close> records the \<^verbatim>\<open>capture_output\<close> flag the process was started with, so that
  the list of processes a run started tells a probe (output captured, not shown) from a
  command whose output is streamed.
\<close>

record completed_process =
  args :: "string list"
  captured :: bool
  returncode :: int

text \<open>
  The state of one invocation: the world outside the program (the container tool and the
  container), every subprocess started so far in order, and every line printed with
  \<^verbatim>\<open>typer.echo\<close> in order.
\<close>

record 'w state =
  world :: 'w
  calls :: "completed_process list"
  echoed :: "string list"

text \<open>\<^verbatim>\<open>subprocess.CalledProcessError(returncode, cmd)\<close>, raised by \<^verbatim>\<open>check_returncode\<close>.\<close>

datatype exn = CalledProcessError int "string list"

type_synonym ('w, 'a) prog = "'w state \<Rightarrow> (exn + 'a) \<times> 'w state"

text \<open>
  \<^verbatim>\<open>subprocess.run\<close> is outside the program: it is the parameter \<open>sub\<close>, which maps the
  argument vector, the \<^verbatim>\<open>capture_output\<close> flag and the world to the return code of the
  finished process and the world it leaves behind.
\<close>

type_synonym 'w subprocess = "string list \<Rightarrow> bool \<Rightarrow> 'w \<Rightarrow> int \<times> 'w"

definition ret :: "'a \<Rightarrow> ('w, 'a) prog" where
  "ret a s = (Inr a, s)"

definition raise :: "exn \<Rightarrow> ('w, 'a) prog" where
  "raise e s = (Inl e, s)"

text \<open>Sequencing: an exception of the first statement skips the rest.\<close>

definition bnd :: "('w, 'a) prog \<Rightarrow> ('a \<Rightarrow> ('w, 'b) prog) \<Rightarrow> ('w, 'b) prog" where
  "bnd m f s = (case m s of (Inl e, s') \<Rightarrow> (Inl e, s') | (Inr a, s') \<Rightarrow> f a s')"

definition echo :: "string \<Rightarrow> ('w, unit) prog" where
  "echo line s = (Inr (), s\<lparr>echoed := echoed s @ [line]\<rparr>)"

text \<open>
  \<^verbatim>\<open>run_command(cmd, show_output=True)\<close>:
  \<^verbatim>\<open>subprocess.run(cmd, check=False, capture_output=not show_output, text=True)\<close>.
\<close>

definition run_command :: "'w subprocess \<Rightarrow> string list \<Rightarrow> bool \<Rightarrow> ('w, completed_process) prog" where
  "run_command sub cmd show_output s =
     (let (rc, w') = sub cmd (\<not> show_output) (world s);
          p = \<lparr>args = cmd, captured = \<not> show_output, returncode = rc\<rparr>
      in (Inr p, s\<lparr>world := w', calls := calls s @ [p]\<rparr>))"

text \<open>\<^verbatim>\<open>CompletedProcess.check_returncode()\<close>.\<close>

definition check_returncode :: "completed_process \<Rightarrow> ('w, unit) prog" where
  "check_returncode p =
     (if returncode p \<noteq> 0 then raise (CalledProcessError (returncode p) (args p)) else ret ())"

subsection \<open>\<^verbatim>\<open>shlex.quote\<close>\<close>

text \<open>
  The standard library's \<^verbatim>\<open>shlex.quote\<close>: the empty string becomes \<^verbatim>\<open>''\<close>; a string
  with no character outside \<^verbatim>\<open>[\w@%+=:,./-]\<close> (\<^verbatim>\<open>re.ASCII\<close>) is returned as it is; any
  other string is wrapped in single quotes, each single quote of it replaced by
  \<^verbatim>\<open>'"'"'\<close>.
\<close>

definition ascii_word :: "char \<Rightarrow> bool" where
  "ascii_word c \<longleftrightarrow>
     c \<in> set ''abcdefghijklmnopqrstuvwxyzABCDEFGHIJKLMNOPQRSTUVWXYZ0123456789_''"

definition shlex_safe :: "char \<Rightarrow> bool" where
  "shlex_safe c \<longleftrightarrow> ascii_word c \<or> c \<in> set ''@%+=:,./-''"

definition squote :: char where
  "squote = CHR 0x27"

definition dquote :: char where
  "dquote = CHR 0x22"

fun replace_squote :: "string \<Rightarrow> string" where
  "replace_squote [] = []"
| "replace_squote (c # cs) =
     (if c = squote then [squote, dquote, squote, dquote, squote] @ replace_squote cs
      else c # replace_squote cs)"

definition shlex_quote :: "string \<Rightarrow> string" where
  "shlex_quote s =
     (if s = [] then [squote, squote]
      else if list_all shlex_safe s then s
      else [squote] @ replace_squote s @ [squote])"

subsection \<open>The three helpers around the container tool\<close>

text \<open>
  \<^verbatim>\<open>devcontainer_exec(workspace_folder, command, remote_env=None)\<close>. A \<^verbatim>\<open>dict\<close> is
  iterated in insertion order, so \<open>remote_env\<close> is an association list; \<^verbatim>\<open>None\<close> and the
  empty dict add nothing.
\<close>

definition devcontainer_exec_argv ::
  "string \<Rightarrow> string \<Rightarrow> (string \<times> string) list option \<Rightarrow> string list" where
  "devcontainer_exec_argv workspace_folder command remote_env =
     [''devcontainer'', ''exec'', ''--workspace-folder'', workspace_folder]
     @ (case remote_env of
          None \<Rightarrow> []
        | Some kvs \<Rightarrow> concat (map (\<lambda>(k, v). [''--remote-env'', k @ ''='' @ v]) kvs))
     @ [''bash'', ''-c'', command]"

definition devcontainer_exec ::
  "'w subprocess \<Rightarrow> string \<Rightarrow> string \<Rightarrow> (string \<times> string) list option
     \<Rightarrow> ('w, completed_process) prog" where
  "devcontainer_exec sub workspace_folder command remote_env =
     run_command sub (devcontainer_exec_argv workspace_folder command remote_env) True"

text \<open>\<^verbatim>\<open>command_in_container_available(workspace_folder, command)\<close>.\<close>

definition probe_argv :: "string \<Rightarrow> string \<Rightarrow> string list" where
  "probe_argv workspace_folder command =
     [''devcontainer'', ''exec'', ''--workspace-folder'', workspace_folder,
      ''bash'', ''-c'', ''command -v '' @ shlex_quote command]"

definition command_in_container_available ::
  "'w subprocess \<Rightarrow> string \<Rightarrow> string \<Rightarrow> ('w, bool) prog" where
  "command_in_container_available sub workspace_folder command =
     bnd (run_command sub (probe_argv workspace_folder command) False)
       (\<lambda>p. ret (returncode p = 0))"

text \<open>\<^verbatim>\<open>start_devcontainer(workspace_dir, purge)\<close>.\<close>

definition start_argv :: "string \<Rightarrow> bool \<Rightarrow> string list" where
  "start_argv workspace_dir purge =
     [''devcontainer'', ''up''] @ [''--workspace-folder'', workspace_dir]
     @ (if purge then [''--remove-existing-container''] else [])"

definition starting_message :: "string \<Rightarrow> string" where
  "starting_message workspace_dir = ''Starting devcontainer in '' @ workspace_dir @ ''...''"

definition start_devcontainer ::
  "'w subprocess \<Rightarrow> string \<Rightarrow> bool \<Rightarrow> ('w, completed_process) prog" where
  "start_devcontainer sub workspace_dir purge =
     bnd (echo (starting_message workspace_dir))
       (\<lambda>_. run_command sub (start_argv workspace_dir purge) True)"

subsection \<open>The body of \<^verbatim>\<open>setup_devcontainer\<close>\<close>

definition deps_to_install :: string where
  "deps_to_install = ''curl''"

definition install_deps_command :: string where
  "install_deps_command = ''sudo apt update && sudo apt install -y '' @ deps_to_install"

definition install_nix_command :: string where
  "install_nix_command =
     ''curl -L https://nixos.org/nix/install | ''
     @ ''sh -s -- --no-daemon --nix-extra-conf-file <(echo 'sandbox = false') && ''
     @ ''. $HOME/.nix-profile/etc/profile.d/nix.sh''"

definition install_home_manager_command :: string where
  "install_home_manager_command =
     ''nix-channel --add https://github.com/nix-community/home-manager/archive/master.tar.gz home-manager &> /dev/null ''
     @ ''nix-channel --update && nix-shell '<home-manager>' -A install &> /dev/null''"

text \<open>
  \<^verbatim>\<open>f"github:{github}" if github else repo\<close>: \<^verbatim>\<open>None\<close> and the empty string are falsy, and
  an f-string prints \<^verbatim>\<open>None\<close> as the four letters.
\<close>

definition py_str :: "string option \<Rightarrow> string" where
  "py_str v = (case v of None \<Rightarrow> ''None'' | Some s \<Rightarrow> s)"

definition formatted_nix_input :: "string option \<Rightarrow> string option \<Rightarrow> string" where
  "formatted_nix_input repo github =
     (case github of
        Some g \<Rightarrow> if g \<noteq> [] then ''github:'' @ g else py_str repo
      | None \<Rightarrow> py_str repo)"

definition nix_env :: "(string \<times> string) list" where
  "nix_env = [(''NIX_CONFIG'', ''experimental-features = nix-command flakes'')]"

definition apply_command :: "string option \<Rightarrow> string option \<Rightarrow> string \<Rightarrow> string" where
  "apply_command repo github config =
     ''nix run --inputs-from '' @ formatted_nix_input repo github @ '' home-manager -- ''
     @ ''switch --flake '' @ formatted_nix_input repo github @ ''#'' @ config @ '' -b backup''"

definition setup_devcontainer ::
  "'w subprocess \<Rightarrow> string \<Rightarrow> string option \<Rightarrow> string option \<Rightarrow> string \<Rightarrow> bool
     \<Rightarrow> ('w, unit) prog" where
  "setup_devcontainer sub workspace_dir repo github config purge =
     bnd (start_devcontainer sub workspace_dir purge) (\<lambda>started.
     if returncode started \<noteq> 0 then echo ''Failed to run container!''
     else
     bnd (echo ''Devcontainer started successfully! Start environment setup...'') (\<lambda>_.
     bnd (echo ''Installing system dependencies...'') (\<lambda>_.
     bnd (command_in_container_available sub workspace_dir ''apt'') (\<lambda>has_apt.
     if \<not> has_apt then echo ''System doesn't contain supported package manager!''
     else
     bnd (command_in_container_available sub workspace_dir deps_to_install) (\<lambda>has_deps.
     bnd (if \<not> has_deps
          then bnd (devcontainer_exec sub workspace_dir install_deps_command None)
                 check_returncode
          else ret ()) (\<lambda>_.
     bnd (command_in_container_available sub workspace_dir ''nix'') (\<lambda>has_nix.
     bnd (if \<not> has_nix
          then bnd (echo ''Installing nix...'') (\<lambda>_.
               bnd (devcontainer_exec sub workspace_dir install_nix_command None)
                 check_returncode)
          else ret ()) (\<lambda>_.
     bnd (command_in_container_available sub workspace_dir ''home-manager'') (\<lambda>has_hm.
     bnd (if \<not> has_hm
          then bnd (echo ''Installing home-manager...'') (\<lambda>_.
               bnd (devcontainer_exec sub workspace_dir install_home_manager_command None)
                 check_returncode)
          else ret ()) (\<lambda>_.
     bnd (echo ''Applying personal configuration...'') (\<lambda>_.
     bnd (bnd (devcontainer_exec sub workspace_dir (apply_command repo github config)
                 (Some nix_env))
            check_returncode) (\<lambda>_.
     echo ''Devcontainer setup completed successfully!''))))))))))))"

text \<open>One invocation of the command: nothing started and nothing printed yet.\<close>

definition fresh :: "'w \<Rightarrow> 'w state" where
  "fresh w = \<lparr>world = w, calls = [], echoed = []\<rparr>"

definition run_setup ::
  "'w subprocess \<Rightarrow> 'w \<Rightarrow> string \<Rightarrow> string option \<Rightarrow> string option \<Rightarrow> string \<Rightarrow> bool
     \<Rightarrow> (exn + unit) \<times> 'w state" where
  "run_setup sub w workspace_dir repo github config purge =
     setup_devcontainer sub workspace_dir repo github config purge (fresh w)"


subsection \<open>What a run leaves behind\<close>

text \<open>
  The processes a run can start, by the helper that starts them, with the return code
  \<open>r\<close> the world gave.
\<close>

definition start_call :: "string \<Rightarrow> bool \<Rightarrow> int \<Rightarrow> completed_process" where
  "start_call ws purge r = \<lparr>args = start_argv ws purge, captured = False, returncode = r\<rparr>"

definition probe_call :: "string \<Rightarrow> string \<Rightarrow> int \<Rightarrow> completed_process" where
  "probe_call ws name r = \<lparr>args = probe_argv ws name, captured = True, returncode = r\<rparr>"

definition exec_call :: "string \<Rightarrow> string \<Rightarrow> (string \<times> string) list option \<Rightarrow> int \<Rightarrow> completed_process" where
  "exec_call ws command env r =
     \<lparr>args = devcontainer_exec_argv ws command env, captured = False, returncode = r\<rparr>"

definition tool_calls :: "string \<Rightarrow> string \<Rightarrow> string \<Rightarrow> int \<Rightarrow> int \<Rightarrow> completed_process list" where
  "tool_calls ws name command p i =
     probe_call ws name p # (if p = 0 then [] else [exec_call ws command None i])"

definition tool_ok :: "int \<Rightarrow> int \<Rightarrow> bool" where
  "tool_ok p i \<longleftrightarrow> p = 0 \<or> i = 0"

definition tool_echo :: "string list \<Rightarrow> int \<Rightarrow> string list" where
  "tool_echo msgs p = (if p = 0 then [] else msgs)"

definition exec_result :: "string \<Rightarrow> string \<Rightarrow> (string \<times> string) list option \<Rightarrow> int \<Rightarrow> exn + unit" where
  "exec_result ws command env i =
     (if i \<noteq> 0 then Inl (CalledProcessError i (devcontainer_exec_argv ws command env)) else Inr ())"

definition preamble :: "string \<Rightarrow> string list" where
  "preamble ws =
     [starting_message ws, ''Devcontainer started successfully! Start environment setup...'',
      ''Installing system dependencies...'']"

subsection \<open>Worlds\<close>

text \<open>A world whose answer depends on the command alone.\<close>

definition by_command :: "(string list \<Rightarrow> bool \<Rightarrow> int) \<Rightarrow> unit subprocess" where
  "by_command f cmd cap w = (f cmd cap, w)"

definition success_message :: string where
  "success_message = ''Devcontainer setup completed successfully!''"

text \<open>
  A step that fails: a command whose output is shown (the container start, an install, the
  apply command) returning non-zero, or the probe for \<^verbatim>\<open>apt\<close> returning non-zero. A probe
  for curl, nix or home-manager that returns non-zero only says that the tool is to be
  installed.
\<close>

definition step_failed :: "string \<Rightarrow> completed_process \<Rightarrow> bool" where
  "step_failed ws c \<longleftrightarrow>
     returncode c \<noteq> 0 \<and> (\<not> captured c \<or> args c = probe_argv ws ''apt'')"

text \<open>The three tools the pipeline installs when absent, each with its install command.\<close>

definition tools :: "(string \<times> string) list" where
  "tools =
     [(deps_to_install, install_deps_command), (''nix'', install_nix_command),
      (''home-manager'', install_home_manager_command)]"

text \<open>
  A world for the workspace \<^verbatim>\<open>.\<close>: the container starts and \<^verbatim>\<open>apt\<close> is there; no
  other probed tool is, and every other command fails.
\<close>

definition installs_fail :: "string list \<Rightarrow> bool \<Rightarrow> int" where
  "installs_fail cmd cap =
     (if cap then (if cmd = probe_argv ''.'' ''apt'' then 0 else 1)
      else if cmd = start_argv ''.'' False then 0 else 2)"

text \<open>
  A container for the workspace \<^verbatim>\<open>.\<close> with a state, the names of the tools installed in
  it: a probe returns 0 exactly for an installed tool, each of the three install commands
  succeeds and installs its tool, the command given a remote environment fails, and every
  other command succeeds.
\<close>

definition container :: "string list subprocess" where
  "container cmd cap installed =
     (if cap
      then (if list_ex (\<lambda>name. cmd = probe_argv ''.'' name) installed then 0 else 1, installed)
      else if cmd = devcontainer_exec_argv ''.'' install_deps_command None
      then (0, deps_to_install # installed)
      else if cmd = devcontainer_exec_argv ''.'' install_nix_command None
      then (0, ''nix'' # installed)
      else if cmd = devcontainer_exec_argv ''.'' install_home_manager_command None
      then (0, ''home-manager'' # installed)
      else if ''--remote-env'' \<in> set cmd then (1, installed)
      else (0, installed))"

subsection \<open>The configuration source\<close>

text \<open>
  The spec's \<open>ConfigurationSource\<close>: a URL, or a GitHub reference \<^verbatim>\<open>owner/repo\<close>. The code
  has no such type: it carries the two options \<^verbatim>\<open>repo\<close> and \<^verbatim>\<open>github\<close>, one of them
  \<^verbatim>\<open>None\<close>.
\<close>

datatype configuration_source = Url string | GithubRef string

fun repo_option :: "configuration_source \<Rightarrow> string option" where
  "repo_option (Url u) = Some u"
| "repo_option (GithubRef g) = None"

fun github_option :: "configuration_source \<Rightarrow> string option" where
  "github_option (Url u) = None"
| "github_option (GithubRef g) = Some g"


text \<open>
  A process started with no remote environment: \<^verbatim>\<open>devcontainer up\<close>, or a
  \<^verbatim>\<open>devcontainer exec\<close> whose arguments go from the workspace folder straight to
  \<^verbatim>\<open>bash -c\<close>.
\<close>

definition without_remote_env :: "string \<Rightarrow> completed_process \<Rightarrow> bool" where
  "without_remote_env ws c \<longleftrightarrow>
     (\<exists>purge. args c = start_argv ws purge)
     \<or> (\<exists>command. args c = devcontainer_exec_argv ws command None)"

subsection \<open>The exit status of the process\<close>

text \<open>
  The module ends with \<^verbatim>\<open>app()\<close>: a command that returns ends the process with status 0,
  an exception that nothing catches ends it with a traceback and status 1. No statement
  of \<^verbatim>\<open>setup_devcontainer\<close> sets a status of its own.
\<close>

definition exit_status :: "exn + unit \<Rightarrow> int" where
  "exit_status r = (case r of Inr _ \<Rightarrow> 0 | Inl _ \<Rightarrow> 1)"

text \<open>The lines the pipeline prints before a step, none of which names a failure.\<close>

definition progress_lines :: "string list" where
  "progress_lines =
     [''Installing system dependencies...'', ''Installing nix...'',
      ''Installing home-manager...'', ''Applying personal configuration...'']"

text \<open>A world in which the container does not start.\<close>

definition start_fails :: "string list \<Rightarrow> bool \<Rightarrow> int" where
  "start_fails cmd cap = 1"

subsection \<open>Regular expressions of \<^verbatim>\<open>re\<close>\<close>

text \<open>
  The part of Python's \<^verbatim>\<open>re\<close> syntax the two patterns use. An item of a bracket
  expression is a character, a range, or \<^verbatim>\<open>\w\<close>.
\<close>

datatype class_item = Lit char | Range char char | WordChar

text \<open>
  \<^verbatim>\<open>\w\<close> on a \<^verbatim>\<open>str\<close> pattern is Unicode-aware: below 256 it holds the ASCII letters,
  digits and underscore and the Latin-1 letters and numerics.
\<close>

definition unicode_word :: "char \<Rightarrow> bool" where
  "unicode_word c \<longleftrightarrow>
     ascii_word c
     \<or> (of_char c :: nat) \<in> {170, 178, 179, 181, 185, 186, 188, 189, 190}
     \<or> (192 \<le> (of_char c :: nat) \<and> (of_char c :: nat) \<noteq> 215 \<and> (of_char c :: nat) \<noteq> 247)"

fun in_item :: "char \<Rightarrow> class_item \<Rightarrow> bool" where
  "in_item c (Lit d) \<longleftrightarrow> c = d"
| "in_item c (Range lo hi) \<longleftrightarrow> (of_char lo :: nat) \<le> of_char c \<and> (of_char c :: nat) \<le> of_char hi"
| "in_item c WordChar \<longleftrightarrow> unicode_word c"

definition newline :: char where
  "newline = CHR 0x0A"

datatype regex =
    Never
  | Empty
  | OneOf "class_item list"
  | AnyChar
  | Seq regex regex
  | Alt regex regex
  | Opt regex
  | Star regex
  | OneOrMore regex
  | AtLeast nat regex

text \<open>A literal string of the pattern.\<close>

fun literal :: "string \<Rightarrow> regex" where
  "literal [] = Empty"
| "literal (c # cs) = Seq (OneOf [Lit c]) (literal cs)"

text \<open>Whether the expression matches the empty string.\<close>

fun nullable :: "regex \<Rightarrow> bool" where
  "nullable Never = False"
| "nullable Empty = True"
| "nullable (OneOf items) = False"
| "nullable AnyChar = False"
| "nullable (Seq r s) = (nullable r \<and> nullable s)"
| "nullable (Alt r s) = (nullable r \<or> nullable s)"
| "nullable (Opt r) = True"
| "nullable (Star r) = True"
| "nullable (OneOrMore r) = nullable r"
| "nullable (AtLeast n r) = (n = 0 \<or> nullable r)"

text \<open>
  What is left to match after the character \<open>c\<close>. The dot matches any character but a
  newline (no \<^verbatim>\<open>re.DOTALL\<close>).
\<close>

fun after_char :: "char \<Rightarrow> regex \<Rightarrow> regex" where
  "after_char c Never = Never"
| "after_char c Empty = Never"
| "after_char c (OneOf items) = (if list_ex (in_item c) items then Empty else Never)"
| "after_char c AnyChar = (if c = newline then Never else Empty)"
| "after_char c (Seq r s) =
     (if nullable r then Alt (Seq (after_char c r) s) (after_char c s)
      else Seq (after_char c r) s)"
| "after_char c (Alt r s) = Alt (after_char c r) (after_char c s)"
| "after_char c (Opt r) = after_char c r"
| "after_char c (Star r) = Seq (after_char c r) (Star r)"
| "after_char c (OneOrMore r) = Seq (after_char c r) (Star r)"
| "after_char c (AtLeast n r) = Seq (after_char c r) (AtLeast (n - 1) r)"

text \<open>The whole string is matched by the expression.\<close>

fun matches :: "regex \<Rightarrow> string \<Rightarrow> bool" where
  "matches r [] = nullable r"
| "matches r (c # cs) = matches (after_char c r) cs"

text \<open>
  \<^verbatim>\<open>re.compile("^...$").match(value)\<close>: the match starts at the beginning of the string,
  and \<^verbatim>\<open>$\<close> (no \<^verbatim>\<open>re.MULTILINE\<close>) stands at the end of the string or just before a
  newline that ends the string. The search backtracks over every way to match, so it
  succeeds exactly when the expression matches the whole string, or the string without
  its last character when that is a newline.
\<close>

definition match_anchored :: "regex \<Rightarrow> string \<Rightarrow> bool" where
  "match_anchored r s \<longleftrightarrow>
     matches r s \<or> (s \<noteq> [] \<and> last s = newline \<and> matches r (butlast s))"

subsection \<open>The validators of the two options\<close>

text \<open>\<^verbatim>\<open>typer.BadParameter(message)\<close>.\<close>

datatype bad_parameter = BadParameter string

text \<open>\<^verbatim>\<open>^https?://[\w\-\.]+\.[a-z]{2,}(/.*)?$\<close>\<close>

definition url_pattern :: regex where
  "url_pattern =
     Seq (literal ''http'') (Seq (Opt (OneOf [Lit CHR ''s''])) (Seq (literal ''://'')
     (Seq (OneOrMore (OneOf [WordChar, Lit CHR ''-'', Lit CHR ''.'']))
     (Seq (OneOf [Lit CHR ''.''])
     (Seq (AtLeast 2 (OneOf [Range CHR ''a'' CHR ''z'']))
     (Opt (Seq (OneOf [Lit CHR ''/'']) (Star AnyChar))))))))"

definition validate_url :: "string option \<Rightarrow> bad_parameter + string option" where
  "validate_url v =
     (case v of
        None \<Rightarrow> Inr None
      | Some u \<Rightarrow>
          if \<not> match_anchored url_pattern u then Inl (BadParameter (''Invalid URL: '' @ u))
          else Inr (Some u))"

text \<open>\<^verbatim>\<open>^[A-Za-z0-9_.-]+/[A-Za-z0-9_.-]+$\<close>\<close>

definition github_segment :: regex where
  "github_segment =
     OneOrMore (OneOf [Range CHR ''A'' CHR ''Z'', Range CHR ''a'' CHR ''z'', Range CHR ''0'' CHR ''9'',
                  Lit CHR ''_'', Lit CHR ''.'', Lit CHR ''-''])"

definition github_pattern :: regex where
  "github_pattern = Seq github_segment (Seq (OneOf [Lit CHR ''/'']) github_segment)"

definition validate_github :: "string option \<Rightarrow> bad_parameter + string option" where
  "validate_github v =
     (case v of
        None \<Rightarrow> Inr None
      | Some g \<Rightarrow>
          if \<not> match_anchored github_pattern g
          then Inl (BadParameter ''Invalid GitHub repo format. Use format: username/repo'')
          else Inr (Some g))"

subsection \<open>Choosing the source: the option callbacks\<close>

text \<open>
  \<^verbatim>\<open>ctx.params\<close>: the values of the parameters processed so far, by parameter name; an
  option that was processed and not given holds \<^verbatim>\<open>None\<close>. \<^verbatim>\<open>ctx.params.get(name)\<close> is
  \<^verbatim>\<open>None\<close> for a name not yet processed too.
\<close>

type_synonym params = "string \<rightharpoonup> string option"

definition params_get :: "params \<Rightarrow> string \<Rightarrow> string option" where
  "params_get ctx_params name = (case ctx_params name of None \<Rightarrow> None | Some v \<Rightarrow> v)"

text \<open>\<^verbatim>\<open>validate_sources(ctx, param, value)\<close>, with \<^verbatim>\<open>param.name\<close> as \<open>param_name\<close>.\<close>

definition validate_sources ::
  "params \<Rightarrow> string \<Rightarrow> string option \<Rightarrow> bad_parameter + string option" where
  "validate_sources ctx_params param_name v =
     (let other_param = (if param_name = ''repo'' then ''github'' else ''repo'');
          other_value = params_get ctx_params other_param
      in if v \<noteq> None \<and> other_value \<noteq> None
         then Inl (BadParameter ''Cannot specify both --repo and --github'')
         else if param_name = ''github'' \<and> v = None \<and> params_get ctx_params ''repo'' = None
         then Inl (BadParameter ''Must specify either --repo or --github'')
         else Inr v)"

text \<open>
  The callbacks of the two options:
  \<^verbatim>\<open>lambda ctx, param, value: validate_sources(ctx, param, validate_url(value))\<close> and the
  same with \<^verbatim>\<open>validate_github\<close>. The argument is evaluated first, so a malformed value
  raises before \<^verbatim>\<open>validate_sources\<close> is entered.
\<close>

definition repo_callback :: "params \<Rightarrow> string option \<Rightarrow> bad_parameter + string option" where
  "repo_callback ctx_params v =
     (case validate_url v of Inl e \<Rightarrow> Inl e | Inr v' \<Rightarrow> validate_sources ctx_params ''repo'' v')"

definition github_callback :: "params \<Rightarrow> string option \<Rightarrow> bad_parameter + string option" where
  "github_callback ctx_params v =
     (case validate_github v of
        Inl e \<Rightarrow> Inl e
      | Inr v' \<Rightarrow> validate_sources ctx_params ''github'' v')"

definition callback_of :: "string \<Rightarrow> params \<Rightarrow> string option \<Rightarrow> bad_parameter + string option" where
  "callback_of name = (if name = ''repo'' then repo_callback else github_callback)"

text \<open>
  Click processes the parameters one after the other: it calls the parameter's callback
  with the context as it stands and the value from the command line (\<^verbatim>\<open>None\<close>, the
  default, for an option that was not given), and stores what the callback returns in
  \<^verbatim>\<open>ctx.params\<close>; an exception of a callback ends the processing. Of the five parameters
  of the command only \<^verbatim>\<open>repo\<close> and \<^verbatim>\<open>github\<close> have callbacks, and the callbacks read
  no other entry of \<^verbatim>\<open>ctx.params\<close>, so the other three are left out.
\<close>

fun process_params :: "string list \<Rightarrow> (string \<Rightarrow> string option) \<Rightarrow> params \<Rightarrow> bad_parameter + params" where
  "process_params [] given ctx_params = Inr ctx_params"
| "process_params (name # names) given ctx_params =
     (case callback_of name ctx_params (given name) of
        Inl e \<Rightarrow> Inl e
      | Inr v \<Rightarrow> process_params names given (ctx_params(name \<mapsto> v)))"

text \<open>
  The command line, as far as the two options go: their occurrences in order, each with
  the parameter name and the value. An option given twice holds its last value. Click
  processes first the parameters given on the command line, in the order of their first
  occurrence, then the others in the order of their declaration (\<^verbatim>\<open>repo\<close> is declared
  before \<^verbatim>\<open>github\<close>).
\<close>

datatype source_option = RepoOption | GithubOption

fun param_name :: "source_option \<Rightarrow> string" where
  "param_name RepoOption = ''repo''"
| "param_name GithubOption = ''github''"

definition given_value :: "(source_option \<times> string) list \<Rightarrow> string \<Rightarrow> string option" where
  "given_value opts name = map_of (rev (map (\<lambda>(opt, v). (param_name opt, v)) opts)) name"

definition declaration_order :: "string list" where
  "declaration_order = [''repo'', ''github'']"

definition processing_order :: "(source_option \<times> string) list \<Rightarrow> string list" where
  "processing_order opts =
     (let invoked = rev (remdups (rev (map (\<lambda>(opt, v). param_name opt) opts)))
      in invoked @ filter (\<lambda>name. name \<notin> set invoked) declaration_order)"

definition select_sources :: "(source_option \<times> string) list \<Rightarrow> bad_parameter + params" where
  "select_sources opts = process_params (processing_order opts) (given_value opts) Map.empty"

text \<open>The four errors of the source selection, by their messages.\<close>

definition invalid_url :: "string \<Rightarrow> bad_parameter" where
  "invalid_url u = BadParameter (''Invalid URL: '' @ u)"

definition invalid_github :: bad_parameter where
  "invalid_github = BadParameter ''Invalid GitHub repo format. Use format: username/repo''"

definition conflicting_sources :: bad_parameter where
  "conflicting_sources = BadParameter ''Cannot specify both --repo and --github''"

definition missing_source :: bad_parameter where
  "missing_source = BadParameter ''Must specify either --repo or --github''"

text \<open>The parameters \<^verbatim>\<open>setup_devcontainer\<close> is called with for a source.\<close>

definition params_of :: "configuration_source \<Rightarrow> params" where
  "params_of src = [''repo'' \<mapsto> repo_option src, ''github'' \<mapsto> github_option src]"

subsection \<open>How the shell reads a command of plain words\<close>

text \<open>
  The probe's command string is read by \<^verbatim>\<open>bash -c\<close>. The shell's quoting rules, as far as
  a command of literal words goes: blanks separate words; between single quotes every
  character stands for itself; between double quotes every character but \<^verbatim>\<open>$\<close>, the
  backquote, the backslash and \<^verbatim>\<open>!\<close> stands for itself; outside quotes a character that
  is not special to the shell stands for itself. \<open>sh_words\<close> gives the words of such a
  command, and \<open>None\<close> for a text with an unquoted special character (an operator, an
  expansion, a pattern, a comment, a newline) or an open quote: a text the shell would
  read as more than a list of literal words.
\<close>

definition sh_special :: "char \<Rightarrow> bool" where
  "sh_special c \<longleftrightarrow>
     c \<in> set ''|&;<>()$*?[#~!{} ''
     \<or> c \<in> {squote, dquote, CHR 0x60, CHR 0x5C, CHR 0x0A, CHR 0x09}"

datatype quoting = Unquoted | InSingle | InDouble

fun sh_scan :: "quoting \<Rightarrow> bool \<Rightarrow> string \<Rightarrow> string \<Rightarrow> string list option" where
  "sh_scan Unquoted started w [] = Some (if started then [w] else [])"
| "sh_scan InSingle started w [] = None"
| "sh_scan InDouble started w [] = None"
| "sh_scan Unquoted started w (c # cs) =
     (if c = squote then sh_scan InSingle True w cs
      else if c = dquote then sh_scan InDouble True w cs
      else if c = CHR '' '' \<or> c = CHR 0x09
      then (if started then map_option (Cons w) (sh_scan Unquoted False [] cs)
            else sh_scan Unquoted False [] cs)
      else if sh_special c then None
      else sh_scan Unquoted True (w @ [c]) cs)"
| "sh_scan InSingle started w (c # cs) =
     (if c = squote then sh_scan Unquoted True w cs else sh_scan InSingle True (w @ [c]) cs)"
| "sh_scan InDouble started w (c # cs) =
     (if c = dquote then sh_scan Unquoted True w cs
      else if c \<in> {CHR ''$'', CHR 0x60, CHR 0x5C, CHR ''!''} then None
      else sh_scan InDouble True (w @ [c]) cs)"

definition sh_words :: "string \<Rightarrow> string list option" where
  "sh_words s = sh_scan Unquoted False [] s"

subsection \<open>The strings an expression matches\<close>

text \<open>
  The meaning of an expression as a set of strings, to state what the matcher decides.
\<close>

definition conc :: "string set \<Rightarrow> string set \<Rightarrow> string set" where
  "conc A B = {xs @ ys | xs ys. xs \<in> A \<and> ys \<in> B}"

inductive_set star :: "string set \<Rightarrow> string set" for A :: "string set" where
  star_nil: "[] \<in> star A"
| star_step: "xs \<in> A \<Longrightarrow> ys \<in> star A \<Longrightarrow> xs @ ys \<in> star A"

fun copies :: "nat \<Rightarrow> string set \<Rightarrow> string set" where
  "copies 0 A = {[]}"
| "copies (Suc n) A = conc A (copies n A)"

fun lang :: "regex \<Rightarrow> string set" where
  "lang Never = {}"
| "lang Empty = {[]}"
| "lang (OneOf items) = {[c] | c. list_ex (in_item c) items}"
| "lang AnyChar = {[c] | c. c \<noteq> newline}"
| "lang (Seq r s) = conc (lang r) (lang s)"
| "lang (Alt r s) = lang r \<union> lang s"
| "lang (Opt r) = insert [] (lang r)"
| "lang (Star r) = star (lang r)"
| "lang (OneOrMore r) = conc (lang r) (star (lang r))"
| "lang (AtLeast n r) = conc (copies n (lang r)) (star (lang r))"

text \<open>The strings of one character of a class.\<close>

definition singles :: "(char \<Rightarrow> bool) \<Rightarrow> string set" where
  "singles P = {[c] | c. P c}"

definition rest_after :: "char \<Rightarrow> string set \<Rightarrow> string set" where
  "rest_after c A = {w. c # w \<in> A}"

subsection \<open>The shapes the spec gives the two options\<close>

text \<open>
  An \<^verbatim>\<open>owner/repo\<close> reference: two non-empty segments of \<^verbatim>\<open>[A-Za-z0-9_.-]\<close> with one
  slash between them.
\<close>

definition segment_char :: "char \<Rightarrow> bool" where
  "segment_char c \<longleftrightarrow>
     c \<in> set ''ABCDEFGHIJKLMNOPQRSTUVWXYZabcdefghijklmnopqrstuvwxyz0123456789_.-''"

definition github_shape :: "string \<Rightarrow> bool" where
  "github_shape g \<longleftrightarrow>
     (\<exists>owner repo. g = owner @ ''/'' @ repo \<and> owner \<noteq> [] \<and> repo \<noteq> []
        \<and> list_all segment_char owner \<and> list_all segment_char repo)"

text \<open>
  An HTTP(S) URL: the scheme \<^verbatim>\<open>http\<close> or \<^verbatim>\<open>https\<close>, a host of word characters, hyphens
  and dots that ends with a dot and a top-level label of two or more lower-case letters,
  and an optional path, which starts with a slash and stays on one line.
\<close>

definition lower_letter :: "char \<Rightarrow> bool" where
  "lower_letter c \<longleftrightarrow> c \<in> set ''abcdefghijklmnopqrstuvwxyz''"

definition host_char :: "char \<Rightarrow> bool" where
  "host_char c \<longleftrightarrow> unicode_word c \<or> c = CHR ''-'' \<or> c = CHR ''.''"

definition url_shape :: "string \<Rightarrow> bool" where
  "url_shape u \<longleftrightarrow>
     (\<exists>scheme host tld path.
        u = scheme @ ''://'' @ host @ ''.'' @ tld @ path
        \<and> (scheme = ''http'' \<or> scheme = ''https'')
        \<and> host \<noteq> [] \<and> list_all host_char host
        \<and> 2 \<le> length tld \<and> list_all lower_letter tld
        \<and> (path = [] \<or> (\<exists>rest. path = ''/'' @ rest \<and> list_all (\<lambda>c. c \<noteq> newline) rest)))"

text \<open>
  A value that is a string of the shape with one newline after it: what \<^verbatim>\<open>$\<close> lets through
  beside the strings of the shape.
\<close>

definition followed_by_newline :: "(string \<Rightarrow> bool) \<Rightarrow> string \<Rightarrow> bool" where
  "followed_by_newline shape v \<longleftrightarrow> v \<noteq> [] \<and> last v = newline \<and> shape (butlast v)"

section \<open>Every run of the pipeline\<close>

subsection \<open>One statement at a time\<close>

lemma bnd_run:
  assumes "bnd m f s = (r, t)"
  obtains (raised) e where "m s = (Inl e, t)" and "r = Inl e"
        | (went_on) a s' where "m s = (Inr a, s')" and "f a s' = (r, t)"
  using assms by (auto simp: bnd_def split: prod.splits sum.splits)

lemma echo_run:
  assumes "echo l s = (r, t)"
  shows "r = Inr () \<and> calls t = calls s \<and> echoed t = echoed s @ [l]"
  using assms by (auto simp: echo_def)

lemma run_command_run:
  assumes "run_command sub cmd show s = (r, t)"
  shows "\<exists>rc. r = Inr \<lparr>args = cmd, captured = \<not> show, returncode = rc\<rparr>
           \<and> calls t = calls s @ [\<lparr>args = cmd, captured = \<not> show, returncode = rc\<rparr>]
           \<and> echoed t = echoed s"
  using assms by (auto simp: run_command_def Let_def split: prod.splits)

lemma probe_run:
  assumes "command_in_container_available sub ws name s = (r, t)"
  shows "\<exists>p. r = Inr (p = 0) \<and> calls t = calls s @ [probe_call ws name p] \<and> echoed t = echoed s"
  using assms unfolding command_in_container_available_def
  by (elim bnd_run) (auto dest!: run_command_run simp: ret_def probe_call_def)

lemma exec_check_run:
  assumes "bnd (devcontainer_exec sub ws command env) check_returncode s = (r, t)"
  shows "\<exists>i. r = exec_result ws command env i \<and> calls t = calls s @ [exec_call ws command env i]
           \<and> echoed t = echoed s"
proof -
  obtain q s' where q: "devcontainer_exec sub ws command env s = (q, s')"
    by (cases "devcontainer_exec sub ws command env s")
  from run_command_run [OF q [unfolded devcontainer_exec_def]] obtain i where
    i: "q = Inr (exec_call ws command env i)"
       "calls s' = calls s @ [exec_call ws command env i]" "echoed s' = echoed s"
    by (auto simp: exec_call_def)
  from assms q i(1) have "check_returncode (exec_call ws command env i) s' = (r, t)"
    by (simp add: bnd_def)
  then have "r = exec_result ws command env i \<and> t = s'"
    by (cases "i = 0") (simp_all add: check_returncode_def exec_call_def exec_result_def ret_def raise_def)
  with i show ?thesis by blast
qed

lemma start_run:
  assumes "start_devcontainer sub ws purge s = (r, t)"
  shows "\<exists>r0. r = Inr (start_call ws purge r0) \<and> calls t = calls s @ [start_call ws purge r0]
           \<and> echoed t = echoed s @ [starting_message ws]"
  using assms unfolding start_devcontainer_def
  by (elim bnd_run) (auto dest!: run_command_run echo_run simp: start_call_def)

text \<open>The install pattern: probe; when absent, print the lines \<open>msgs\<close>, install, check.\<close>

lemma tool_stage_run:
  assumes run: "bnd (command_in_container_available sub ws name)
            (\<lambda>has. bnd (if \<not> has then inst else ret ()) k) s = (r, t)"
    and inst: "\<And>s r t. inst s = (r, t) \<Longrightarrow>
            \<exists>i. r = exec_result ws command None i
              \<and> calls t = calls s @ [exec_call ws command None i] \<and> echoed t = echoed s @ msgs"
  obtains (failed) p i where "p \<noteq> 0" and "i \<noteq> 0"
      and "calls t = calls s @ tool_calls ws name command p i"
      and "echoed t = echoed s @ msgs"
      and "r = exec_result ws command None i"
    | (passed) p i s' where "tool_ok p i"
      and "calls s' = calls s @ tool_calls ws name command p i"
      and "echoed s' = echoed s @ tool_echo msgs p"
      and "k () s' = (r, t)"
proof -
  from run show thesis
  proof (cases rule: bnd_run)
    case (raised e)
    from probe_run [OF raised(1)] show ?thesis by simp
  next
    case (went_on has s1)
    from probe_run [OF went_on(1)] obtain p where
      p: "has = (p = 0)" "calls s1 = calls s @ [probe_call ws name p]" "echoed s1 = echoed s"
      by auto
    show ?thesis
    proof (cases "p = 0")
      case True
      with went_on(2) p have "k () s1 = (r, t)" by (simp add: bnd_def ret_def)
      with True p show ?thesis
        by (intro passed [of p 0 s1]) (simp_all add: tool_ok_def tool_calls_def tool_echo_def)
    next
      case False
      with went_on(2) p have "bnd inst k s1 = (r, t)" by simp
      then show ?thesis
      proof (cases rule: bnd_run)
        case (raised e)
        from inst [OF raised(1)] obtain i where
          i: "Inl e = exec_result ws command None i"
             "calls t = calls s1 @ [exec_call ws command None i]" "echoed t = echoed s1 @ msgs"
          by auto
        from i(1) have "i \<noteq> 0" by (auto simp: exec_result_def split: if_splits)
        with False i p raised show ?thesis
          by (intro failed [of p i]) (simp_all add: tool_calls_def)
      next
        case (went_on u s2)
        from inst [OF went_on(1)] obtain i where
          i: "Inr u = exec_result ws command None i"
             "calls s2 = calls s1 @ [exec_call ws command None i]" "echoed s2 = echoed s1 @ msgs"
          by auto
        from i(1) have "i = 0" by (auto simp: exec_result_def split: if_splits)
        with False i p went_on show ?thesis
          by (intro passed [of p i s2]) (simp_all add: tool_ok_def tool_calls_def tool_echo_def)
      qed
    qed
  qed
qed

lemma install_without_line:
  assumes "bnd (devcontainer_exec sub ws command None) check_returncode s = (r, t)"
  shows "\<exists>i. r = exec_result ws command None i
           \<and> calls t = calls s @ [exec_call ws command None i] \<and> echoed t = echoed s @ []"
  using exec_check_run [OF assms] by simp

lemma install_with_line:
  assumes "bnd (echo l) (\<lambda>_. bnd (devcontainer_exec sub ws command None) check_returncode) s
             = (r, t)"
  shows "\<exists>i. r = exec_result ws command None i
           \<and> calls t = calls s @ [exec_call ws command None i] \<and> echoed t = echoed s @ [l]"
proof -
  from assms have "bnd (devcontainer_exec sub ws command None) check_returncode
      (s\<lparr>echoed := echoed s @ [l]\<rparr>) = (r, t)"
    by (simp add: bnd_def echo_def)
  from exec_check_run [OF this] show ?thesis by simp
qed

lemma quiet_stage_run:
  assumes "bnd (command_in_container_available sub ws name)
            (\<lambda>has. bnd (if \<not> has
                           then bnd (devcontainer_exec sub ws command None) check_returncode
                           else ret ()) k) s = (r, t)"
  obtains (failed) p i where "p \<noteq> 0" and "i \<noteq> 0"
      and "calls t = calls s @ tool_calls ws name command p i"
      and "echoed t = echoed s @ []"
      and "r = exec_result ws command None i"
    | (passed) p i s' where "tool_ok p i"
      and "calls s' = calls s @ tool_calls ws name command p i"
      and "echoed s' = echoed s @ tool_echo [] p"
      and "k () s' = (r, t)"
proof -
  show thesis
  proof (rule tool_stage_run [where command = command and msgs = "[]", OF assms], goal_cases)
  case (1 s r t)
  then show ?case by (rule install_without_line)
next
  case (2 p i)
  then show ?case by (rule failed)
next
  case (3 p i s')
  then show ?case by (rule passed)
qed
qed

lemma announced_stage_run:
  assumes "bnd (command_in_container_available sub ws name)
            (\<lambda>has. bnd (if \<not> has
                           then bnd (echo l) (\<lambda>_.
                                bnd (devcontainer_exec sub ws command None) check_returncode)
                           else ret ()) k) s = (r, t)"
  obtains (failed) p i where "p \<noteq> 0" and "i \<noteq> 0"
      and "calls t = calls s @ tool_calls ws name command p i"
      and "echoed t = echoed s @ [l]"
      and "r = exec_result ws command None i"
    | (passed) p i s' where "tool_ok p i"
      and "calls s' = calls s @ tool_calls ws name command p i"
      and "echoed s' = echoed s @ tool_echo [l] p"
      and "k () s' = (r, t)"
proof -
  show thesis
  proof (rule tool_stage_run [where command = command and msgs = "[l]", OF assms], goal_cases)
  case (1 s r t)
  then show ?case by (rule install_with_line)
next
  case (2 p i)
  then show ?case by (rule failed)
next
  case (3 p i s')
  then show ?case by (rule passed)
qed
qed

lemma run_setup_cases:
  assumes run: "run_setup sub w ws repo github config purge = (res, s)"
  obtains
    (start_failed) r0 where "r0 \<noteq> 0"
      and "calls s = [start_call ws purge r0]"
      and "echoed s = [starting_message ws, ''Failed to run container!'']"
      and "res = Inr ()"
  | (unsupported) r1 where "r1 \<noteq> 0"
      and "calls s = [start_call ws purge 0, probe_call ws ''apt'' r1]"
      and "echoed s = preamble ws @ [''System doesn't contain supported package manager!'']"
      and "res = Inr ()"
  | (deps_failed) p2 i2 where "p2 \<noteq> 0" and "i2 \<noteq> 0"
      and "calls s = [start_call ws purge 0, probe_call ws ''apt'' 0]
             @ tool_calls ws deps_to_install install_deps_command p2 i2"
      and "echoed s = preamble ws"
      and "res = exec_result ws install_deps_command None i2"
  | (nix_failed) p2 i2 p3 i3 where "tool_ok p2 i2" and "p3 \<noteq> 0" and "i3 \<noteq> 0"
      and "calls s = [start_call ws purge 0, probe_call ws ''apt'' 0]
             @ tool_calls ws deps_to_install install_deps_command p2 i2
             @ tool_calls ws ''nix'' install_nix_command p3 i3"
      and "echoed s = preamble ws @ [''Installing nix...'']"
      and "res = exec_result ws install_nix_command None i3"
  | (home_manager_failed) p2 i2 p3 i3 p4 i4 where "tool_ok p2 i2" and "tool_ok p3 i3"
      and "p4 \<noteq> 0" and "i4 \<noteq> 0"
      and "calls s = [start_call ws purge 0, probe_call ws ''apt'' 0]
             @ tool_calls ws deps_to_install install_deps_command p2 i2
             @ tool_calls ws ''nix'' install_nix_command p3 i3
             @ tool_calls ws ''home-manager'' install_home_manager_command p4 i4"
      and "echoed s = preamble ws @ tool_echo [''Installing nix...''] p3
             @ [''Installing home-manager...'']"
      and "res = exec_result ws install_home_manager_command None i4"
  | (applied) p2 i2 p3 i3 p4 i4 r5 where "tool_ok p2 i2" and "tool_ok p3 i3" and "tool_ok p4 i4"
      and "calls s = [start_call ws purge 0, probe_call ws ''apt'' 0]
             @ tool_calls ws deps_to_install install_deps_command p2 i2
             @ tool_calls ws ''nix'' install_nix_command p3 i3
             @ tool_calls ws ''home-manager'' install_home_manager_command p4 i4
             @ [exec_call ws (apply_command repo github config) (Some nix_env) r5]"
      and "echoed s = preamble ws @ tool_echo [''Installing nix...''] p3
             @ tool_echo [''Installing home-manager...''] p4
             @ [''Applying personal configuration...'']
             @ (if r5 = 0 then [''Devcontainer setup completed successfully!''] else [])"
      and "res = exec_result ws (apply_command repo github config) (Some nix_env) r5"
proof -
  let ?s0 = "fresh w :: 'a state"
  have s0: "calls ?s0 = []" "echoed ?s0 = []" by (simp_all add: fresh_def)
  from run have "setup_devcontainer sub ws repo github config purge ?s0 = (res, s)"
    by (simp add: run_setup_def)
  then show thesis unfolding setup_devcontainer_def
  proof (cases rule: bnd_run)
    case (raised e)
    from start_run [OF raised(1)] show ?thesis by simp
  next
    case (went_on started s1)
    from start_run [OF went_on(1)] s0 obtain r0 where
      r0: "started = start_call ws purge r0" "calls s1 = [start_call ws purge r0]"
          "echoed s1 = [starting_message ws]"
      by auto
    show ?thesis
    proof (cases "r0 = 0")
      case False
      with went_on(2) r0(1) have "echo ''Failed to run container!'' s1 = (res, s)"
        by (simp add: start_call_def)
      from echo_run [OF this] r0 False show ?thesis
        by (intro start_failed [of r0]) simp_all
    next
      case True
      with went_on(2) r0(1) have
        "bnd (echo ''Devcontainer started successfully! Start environment setup...'') (\<lambda>_.
         bnd (echo ''Installing system dependencies...'') (\<lambda>_.
         bnd (command_in_container_available sub ws ''apt'') (\<lambda>has_apt.
         if \<not> has_apt then echo ''System doesn't contain supported package manager!''
         else
         bnd (command_in_container_available sub ws deps_to_install) (\<lambda>has_deps.
         bnd (if \<not> has_deps
              then bnd (devcontainer_exec sub ws install_deps_command None) check_returncode
              else ret ()) (\<lambda>_.
         bnd (command_in_container_available sub ws ''nix'') (\<lambda>has_nix.
         bnd (if \<not> has_nix
              then bnd (echo ''Installing nix...'') (\<lambda>_.
                   bnd (devcontainer_exec sub ws install_nix_command None) check_returncode)
              else ret ()) (\<lambda>_.
         bnd (command_in_container_available sub ws ''home-manager'') (\<lambda>has_hm.
         bnd (if \<not> has_hm
              then bnd (echo ''Installing home-manager...'') (\<lambda>_.
                   bnd (devcontainer_exec sub ws install_home_manager_command None)
                     check_returncode)
              else ret ()) (\<lambda>_.
         bnd (echo ''Applying personal configuration...'') (\<lambda>_.
         bnd (bnd (devcontainer_exec sub ws (apply_command repo github config) (Some nix_env))
                check_returncode) (\<lambda>_.
         echo ''Devcontainer setup completed successfully!''))))))))))) s1 = (res, s)"
        by (simp add: start_call_def)
      then show ?thesis
      proof (cases rule: bnd_run)
        case (raised e)
        from echo_run [OF raised(1)] show ?thesis by simp
      next
        case (went_on u1 s2)
        note e1 = echo_run [OF went_on(1)]
        from went_on(2) show ?thesis
        proof (cases rule: bnd_run)
          case (raised e)
          from echo_run [OF raised(1)] show ?thesis by simp
        next
          case (went_on u2 s3)
          note e2 = echo_run [OF went_on(1)]
          from e1 e2 r0 True have s3: "calls s3 = [start_call ws purge 0]"
            "echoed s3 = preamble ws"
            by (simp_all add: preamble_def)
          from went_on(2) show ?thesis
          proof (cases rule: bnd_run)
            case (raised e)
            from probe_run [OF raised(1)] show ?thesis by simp
          next
            case (went_on has_apt s4)
            from probe_run [OF went_on(1)] s3 obtain r1 where
              r1: "has_apt = (r1 = 0)"
                  "calls s4 = [start_call ws purge 0, probe_call ws ''apt'' r1]"
                  "echoed s4 = preamble ws"
              by auto
            show ?thesis
            proof (cases "r1 = 0")
              case False
              with went_on(2) r1(1) have
                "echo ''System doesn't contain supported package manager!'' s4 = (res, s)"
                by simp
              from echo_run [OF this] r1 False show ?thesis
                by (intro unsupported [of r1]) simp_all
            next
              case apt: True
              with went_on(2) r1(1) have
                "bnd (command_in_container_available sub ws deps_to_install) (\<lambda>has_deps.
                 bnd (if \<not> has_deps
                      then bnd (devcontainer_exec sub ws install_deps_command None) check_returncode
                      else ret ()) (\<lambda>_.
                 bnd (command_in_container_available sub ws ''nix'') (\<lambda>has_nix.
                 bnd (if \<not> has_nix
                      then bnd (echo ''Installing nix...'') (\<lambda>_.
                           bnd (devcontainer_exec sub ws install_nix_command None) check_returncode)
                      else ret ()) (\<lambda>_.
                 bnd (command_in_container_available sub ws ''home-manager'') (\<lambda>has_hm.
                 bnd (if \<not> has_hm
                      then bnd (echo ''Installing home-manager...'') (\<lambda>_.
                           bnd (devcontainer_exec sub ws install_home_manager_command None)
                             check_returncode)
                      else ret ()) (\<lambda>_.
                 bnd (echo ''Applying personal configuration...'') (\<lambda>_.
                 bnd (bnd (devcontainer_exec sub ws (apply_command repo github config) (Some nix_env))
                        check_returncode) (\<lambda>_.
                 echo ''Devcontainer setup completed successfully!'')))))))) s4 = (res, s)"
                by simp
              then show ?thesis
              proof (cases rule: quiet_stage_run)
                case (failed p2 i2)
                with r1 apt show ?thesis
                  by (intro deps_failed [of p2 i2]) simp_all
              next
                case (passed p2 i2 s5)
                from passed(4) show ?thesis
                proof (cases rule: announced_stage_run)
                  case (failed p3 i3)
                  with passed(1-3) r1 apt show ?thesis
                    by (intro nix_failed [of p2 i2 p3 i3]) (simp_all add: tool_echo_def)
                next
                  case stage3: (passed p3 i3 s6)
                  from stage3(4) show ?thesis
                  proof (cases rule: announced_stage_run)
                    case (failed p4 i4)
                    with passed(1-3) stage3(1-3) r1 apt show ?thesis
                      by (intro home_manager_failed [of p2 i2 p3 i3 p4 i4])
                         (simp_all add: tool_echo_def)
                  next
                    case stage4: (passed p4 i4 s7)
                    from stage4(4) show ?thesis
                    proof (cases rule: bnd_run)
                      case (raised e)
                      from echo_run [OF raised(1)] show ?thesis by simp
                    next
                      case (went_on u3 s8)
                      note e3 = echo_run [OF went_on(1)]
                      from went_on(2) show ?thesis
                      proof (cases rule: bnd_run)
                        case (raised e)
                        from exec_check_run [OF raised(1)] obtain r5 where
                          r5: "Inl e = exec_result ws (apply_command repo github config) (Some nix_env) r5"
                            "calls s = calls s8 @ [exec_call ws (apply_command repo github config) (Some nix_env) r5]"
                            "echoed s = echoed s8"
                          by auto
                        from r5(1) have "r5 \<noteq> 0"
                          by (auto simp: exec_result_def split: if_splits)
                        with r5 raised(2) e3 passed(1-3) stage3(1-3) stage4(1-3) r1 apt
                        show ?thesis
                          by (intro applied [of p2 i2 p3 i3 p4 i4 r5]) (simp_all add: tool_echo_def)
                      next
                        case (went_on u4 s9)
                        from exec_check_run [OF went_on(1)] obtain r5 where
                          r5: "Inr u4 = exec_result ws (apply_command repo github config) (Some nix_env) r5"
                            "calls s9 = calls s8 @ [exec_call ws (apply_command repo github config) (Some nix_env) r5]"
                            "echoed s9 = echoed s8"
                          by auto
                        from r5(1) have z: "r5 = 0"
                          by (auto simp: exec_result_def split: if_splits)
                        note e4 = echo_run [OF went_on(2)]
                        from z r5 e4 e3 passed(1-3) stage3(1-3) stage4(1-3) r1 apt
                        show ?thesis
                          by (intro applied [of p2 i2 p3 i3 p4 i4 r5])
                             (simp_all add: tool_echo_def exec_result_def)
                      qed
                    qed
                  qed
                qed
              qed
            qed
          qed
        qed
      qed
    qed
  qed
qed

subsection \<open>The calls of an install stage\<close>

lemma tool_calls_absent: "p \<noteq> 0 \<Longrightarrow>
    tool_calls ws name command p i = [probe_call ws name p, exec_call ws command None i]"
  by (simp add: tool_calls_def)

lemma tool_calls_present: "tool_calls ws name command 0 i = [probe_call ws name 0]"
  by (simp add: tool_calls_def)

lemma probe_in_tool_calls: "probe_call ws name p \<in> set (tool_calls ws name command p i)"
  by (simp add: tool_calls_def)

lemma prod_run: "run_setup sub w ws repo github config purge =
    (fst (run_setup sub w ws repo github config purge),
     snd (run_setup sub w ws repo github config purge))"
  by simp

subsection \<open>Telling the commands apart\<close>

lemma call_simps [simp]:
  "args (start_call ws purge r) = start_argv ws purge"
  "captured (start_call ws purge r) = False"
  "returncode (start_call ws purge r) = r"
  "args (probe_call ws name r) = probe_argv ws name"
  "captured (probe_call ws name r) = True"
  "returncode (probe_call ws name r) = r"
  "args (exec_call ws command env r) = devcontainer_exec_argv ws command env"
  "captured (exec_call ws command env r) = False"
  "returncode (exec_call ws command env r) = r"
  by (simp_all add: start_call_def probe_call_def exec_call_def)

lemma probe_argv_exec: "probe_argv ws name = devcontainer_exec_argv ws (''command -v '' @ shlex_quote name) None"
  by (simp add: probe_argv_def devcontainer_exec_argv_def)

lemma exec_argv_inject [simp]:
  "devcontainer_exec_argv ws c None = devcontainer_exec_argv ws c' None \<longleftrightarrow> c = c'"
  by (simp add: devcontainer_exec_argv_def)

lemma start_argv_not_exec [simp]:
  "start_argv ws purge \<noteq> devcontainer_exec_argv ws' c env"
  "devcontainer_exec_argv ws' c env \<noteq> start_argv ws purge"
  by (simp_all add: start_argv_def devcontainer_exec_argv_def)

lemma exec_nix_env_not_plain [simp]:
  "devcontainer_exec_argv ws c (Some nix_env) \<noteq> devcontainer_exec_argv ws c' None"
  "devcontainer_exec_argv ws c' None \<noteq> devcontainer_exec_argv ws c (Some nix_env)"
  by (simp_all add: devcontainer_exec_argv_def nix_env_def)

lemma probe_strings:
  "shlex_quote ''apt'' = ''apt''" "shlex_quote deps_to_install = ''curl''"
  "shlex_quote ''nix'' = ''nix''" "shlex_quote ''home-manager'' = ''home-manager''"
  by (simp_all add: shlex_quote_def shlex_safe_def ascii_word_def deps_to_install_def)

lemma probe_argv_distinct [simp]:
  "probe_argv ws deps_to_install \<noteq> probe_argv ws ''apt''"
  "probe_argv ws ''nix'' \<noteq> probe_argv ws ''apt''"
  "probe_argv ws ''home-manager'' \<noteq> probe_argv ws ''apt''"
  "probe_argv ws deps_to_install \<noteq> probe_argv ws ''nix''"
  "probe_argv ws deps_to_install \<noteq> probe_argv ws ''home-manager''"
  "probe_argv ws ''nix'' \<noteq> probe_argv ws ''home-manager''"
  "probe_argv ws ''nix'' \<noteq> probe_argv ws deps_to_install"
  "probe_argv ws ''home-manager'' \<noteq> probe_argv ws deps_to_install"
  "probe_argv ws ''home-manager'' \<noteq> probe_argv ws ''nix''"
  by (simp_all add: probe_argv_def probe_strings)

lemma install_commands_distinct [simp]:
  "install_deps_command \<noteq> install_nix_command"
  "install_deps_command \<noteq> install_home_manager_command"
  "install_nix_command \<noteq> install_home_manager_command"
  "install_nix_command \<noteq> install_deps_command"
  "install_home_manager_command \<noteq> install_deps_command"
  "install_home_manager_command \<noteq> install_nix_command"
  by (simp_all add: install_deps_command_def install_nix_command_def
        install_home_manager_command_def deps_to_install_def)

lemma probe_not_install [simp]:
  assumes "name \<in> {''apt'', deps_to_install, ''nix'', ''home-manager''}"
    and "command \<in> {install_deps_command, install_nix_command, install_home_manager_command}"
  shows "probe_argv ws name \<noteq> devcontainer_exec_argv ws command None"
  using assms
  by (auto simp: probe_argv_exec probe_strings install_deps_command_def install_nix_command_def
        install_home_manager_command_def deps_to_install_def)

lemma success_not_before:
  "success_message \<notin> set (preamble ws)"
  "success_message \<noteq> starting_message ws"
  "success_message \<noteq> ''Failed to run container!''"
  "success_message \<noteq> ''System doesn't contain supported package manager!''"
  "success_message \<noteq> ''Installing nix...''"
  "success_message \<noteq> ''Installing home-manager...''"
  "success_message \<noteq> ''Applying personal configuration...''"
  by (simp_all add: success_message_def preamble_def starting_message_def)

lemma success_not_tool_echo:
  "success_message \<notin> set (tool_echo [''Installing nix...''] p)"
  "success_message \<notin> set (tool_echo [''Installing home-manager...''] p)"
  by (simp_all add: tool_echo_def success_not_before)


lemma step_failed_simps [simp]:
  "step_failed ws (start_call ws purge r) \<longleftrightarrow> r \<noteq> 0"
  "step_failed ws (exec_call ws command env r) \<longleftrightarrow> r \<noteq> 0"
  "step_failed ws (probe_call ws ''apt'' r) \<longleftrightarrow> r \<noteq> 0"
  "\<not> step_failed ws (probe_call ws deps_to_install r)"
  "\<not> step_failed ws (probe_call ws ''nix'' r)"
  "\<not> step_failed ws (probe_call ws ''home-manager'' r)"
  by (simp_all add: step_failed_def)

lemma tool_calls_passed:
  assumes "tool_ok p i" and "\<And>r. \<not> step_failed ws (probe_call ws name r)"
  shows "\<forall>c \<in> set (tool_calls ws name command p i). \<not> step_failed ws c"
  using assms by (auto simp: tool_calls_def tool_ok_def)

lemmas tools_passed =
  tool_calls_passed [OF _ step_failed_simps(4)] tool_calls_passed [OF _ step_failed_simps(5)]
  tool_calls_passed [OF _ step_failed_simps(6)]

lemma failure_is_last:
  assumes "xs = ys @ [c]" and "\<forall>y \<in> set ys. \<not> P y" and "k < length xs" and "P (xs ! k)"
  shows "Suc k = length xs \<and> P c"
proof (cases "k < length ys")
  case True
  with assms(1,4) have "P (ys ! k)" by (simp add: nth_append)
  with True assms(2) show ?thesis by simp
next
  case False
  with assms show ?thesis by (simp add: nth_append)
qed

section \<open>Fail-fast and idempotent steps\<close>

text \<open>
  Claim C2. When a step fails (the container start, the probe for \<^verbatim>\<open>apt\<close>, an install or
  the apply command), it is the last process the run starts, and the success line is not
  printed. The steps run one after the other by construction: each statement of the
  pipeline receives the state its predecessor left, with the predecessor's return code
  recorded in it.
\<close>

theorem failed_step_is_last:
  assumes run: "run_setup sub w ws repo github config purge = (res, s)"
    and k: "k < length (calls s)" and failed: "step_failed ws (calls s ! k)"
  shows "Suc k = length (calls s) \<and> success_message \<notin> set (echoed s)"
proof -
  have last_only: "Suc k = length (calls s) \<and> step_failed ws c"
    if "calls s = ys @ [c]" and "\<forall>y \<in> set ys. \<not> step_failed ws y" for ys c
    using failure_is_last [where P = "step_failed ws", OF that k failed] .
  from run show ?thesis
  proof (cases rule: run_setup_cases)
    case (start_failed r0)
    with k show ?thesis by (simp add: success_not_before)
  next
    case (unsupported r1)
    have "Suc k = length (calls s)"
      using last_only [of "[start_call ws purge 0]" "probe_call ws ''apt'' r1"] unsupported(2)
      by simp
    with unsupported(3) show ?thesis by (simp add: success_not_before)
  next
    case (deps_failed p2 i2)
    have "Suc k = length (calls s)"
      using last_only [of
          "[start_call ws purge 0, probe_call ws ''apt'' 0, probe_call ws deps_to_install p2]"
          "exec_call ws install_deps_command None i2"] deps_failed(1,3)
      by (simp add: tool_calls_absent)
    with deps_failed(4) show ?thesis by (simp add: success_not_before)
  next
    case (nix_failed p2 i2 p3 i3)
    let ?ys = "[start_call ws purge 0, probe_call ws ''apt'' 0]
       @ tool_calls ws deps_to_install install_deps_command p2 i2 @ [probe_call ws ''nix'' p3]"
    have "\<forall>y \<in> set ?ys. \<not> step_failed ws y"
      using tools_passed(1) [OF nix_failed(1)] by auto
    moreover have "calls s = ?ys @ [exec_call ws install_nix_command None i3]"
      using nix_failed(2,4) by (simp add: tool_calls_absent)
    ultimately have "Suc k = length (calls s)" using last_only by blast
    with nix_failed(5) show ?thesis by (simp add: success_not_before)
  next
    case (home_manager_failed p2 i2 p3 i3 p4 i4)
    let ?ys = "[start_call ws purge 0, probe_call ws ''apt'' 0]
       @ tool_calls ws deps_to_install install_deps_command p2 i2
       @ tool_calls ws ''nix'' install_nix_command p3 i3 @ [probe_call ws ''home-manager'' p4]"
    have "\<forall>y \<in> set ?ys. \<not> step_failed ws y"
      using tools_passed(1) [OF home_manager_failed(1)] tools_passed(2) [OF home_manager_failed(2)]
      by auto
    moreover have "calls s = ?ys @ [exec_call ws install_home_manager_command None i4]"
      using home_manager_failed(3,5) by (simp add: tool_calls_absent)
    ultimately have "Suc k = length (calls s)" using last_only by blast
    with home_manager_failed(6) show ?thesis
      by (simp add: success_not_before success_not_tool_echo)
  next
    case (applied p2 i2 p3 i3 p4 i4 r5)
    let ?ys = "[start_call ws purge 0, probe_call ws ''apt'' 0]
       @ tool_calls ws deps_to_install install_deps_command p2 i2
       @ tool_calls ws ''nix'' install_nix_command p3 i3
       @ tool_calls ws ''home-manager'' install_home_manager_command p4 i4"
    have "\<forall>y \<in> set ?ys. \<not> step_failed ws y"
      using tools_passed(1) [OF applied(1)] tools_passed(2) [OF applied(2)]
        tools_passed(3) [OF applied(3)]
      by auto
    moreover have "calls s =
        ?ys @ [exec_call ws (apply_command repo github config) (Some nix_env) r5]"
      using applied(4) by simp
    ultimately have "Suc k = length (calls s) \<and>
        step_failed ws (exec_call ws (apply_command repo github config) (Some nix_env) r5)"
      using last_only by blast
    with applied(5) show ?thesis
      by (simp add: success_not_before success_not_tool_echo)
  qed
qed

lemmas prog_defs =
  run_setup_def setup_devcontainer_def start_devcontainer_def command_in_container_available_def
  devcontainer_exec_def run_command_def check_returncode_def bnd_def ret_def raise_def echo_def
  fresh_def by_command_def

lemma installs_fail_run:
  "run_setup (by_command installs_fail) () ''.'' (Some ''https://example.com'') None ''home'' False
   = (Inl (CalledProcessError 2 (devcontainer_exec_argv ''.'' install_deps_command None)),
      \<lparr>world = (),
       calls = [start_call ''.'' False 0, probe_call ''.'' ''apt'' 0,
                probe_call ''.'' deps_to_install 1, exec_call ''.'' install_deps_command None 2],
       echoed = preamble ''.''\<rparr>)"
proof -
  have "installs_fail (start_argv ''.'' False) False = 0"
    "installs_fail (probe_argv ''.'' ''apt'') True = 0"
    "installs_fail (probe_argv ''.'' deps_to_install) True = 1"
    "installs_fail (devcontainer_exec_argv ''.'' install_deps_command None) False = 2"
    by (simp_all add: installs_fail_def)
  then show ?thesis
    by (simp add: prog_defs Let_def start_call_def probe_call_def exec_call_def preamble_def)
qed

theorem failed_step_is_last_witness:
  "Suc 3 = length (calls (snd (run_setup (by_command installs_fail) () ''.''
      (Some ''https://example.com'') None ''home'' False)))
   \<and> success_message \<notin> set (echoed (snd (run_setup (by_command installs_fail) () ''.''
      (Some ''https://example.com'') None ''home'' False)))"
  using failed_step_is_last [OF prod_run,
      where sub = "by_command installs_fail" and w = "()" and ws = "''.''"
        and repo = "Some ''https://example.com''" and github = None and config = "''home''"
        and purge = False and k = 3]
  by (simp add: installs_fail_run)

lemma probe_call_eq [simp]:
  "probe_call ws n p = probe_call ws n' p' \<longleftrightarrow> probe_argv ws n = probe_argv ws n' \<and> p = p'"
  "probe_call ws n p \<noteq> start_call ws purge r"
  "probe_call ws n p \<noteq> exec_call ws command env r"
  by (auto simp: probe_call_def start_call_def exec_call_def)

lemma in_tool_calls:
  "c \<in> set (tool_calls ws n command p i) \<longleftrightarrow>
     c = probe_call ws n p \<or> (p \<noteq> 0 \<and> c = exec_call ws command None i)"
  by (auto simp: tool_calls_def)

lemma probe_argv_apt_distinct [simp]:
  "probe_argv ws ''apt'' \<noteq> probe_argv ws deps_to_install"
  "probe_argv ws ''apt'' \<noteq> probe_argv ws ''nix''"
  "probe_argv ws ''apt'' \<noteq> probe_argv ws ''home-manager''"
  using probe_argv_distinct(1-3) [of ws] by metis+

lemma probe_not_install_command [simp]:
  "probe_argv ws ''apt'' \<noteq> devcontainer_exec_argv ws install_deps_command None"
  "probe_argv ws ''apt'' \<noteq> devcontainer_exec_argv ws install_nix_command None"
  "probe_argv ws ''apt'' \<noteq> devcontainer_exec_argv ws install_home_manager_command None"
  "probe_argv ws deps_to_install \<noteq> devcontainer_exec_argv ws install_deps_command None"
  "probe_argv ws deps_to_install \<noteq> devcontainer_exec_argv ws install_nix_command None"
  "probe_argv ws deps_to_install \<noteq> devcontainer_exec_argv ws install_home_manager_command None"
  "probe_argv ws ''nix'' \<noteq> devcontainer_exec_argv ws install_deps_command None"
  "probe_argv ws ''nix'' \<noteq> devcontainer_exec_argv ws install_nix_command None"
  "probe_argv ws ''nix'' \<noteq> devcontainer_exec_argv ws install_home_manager_command None"
  "probe_argv ws ''home-manager'' \<noteq> devcontainer_exec_argv ws install_deps_command None"
  "probe_argv ws ''home-manager'' \<noteq> devcontainer_exec_argv ws install_nix_command None"
  "probe_argv ws ''home-manager'' \<noteq> devcontainer_exec_argv ws install_home_manager_command None"
  by simp_all

text \<open>
  Claim C3. For each of curl, nix and home-manager: when the probe for the tool returned 0
  in a run, no process of that run has the tool's install command as its argument vector.
\<close>

theorem present_tool_is_not_installed:
  assumes run: "run_setup sub w ws repo github config purge = (res, s)"
    and tool: "(name, command) \<in> set tools"
    and present: "probe_call ws name 0 \<in> set (calls s)"
  shows "\<forall>c \<in> set (calls s). args c \<noteq> devcontainer_exec_argv ws command None"
proof -
  from tool consider
      (deps) "name = deps_to_install" "command = install_deps_command"
    | (nix) "name = ''nix''" "command = install_nix_command"
    | (hm) "name = ''home-manager''" "command = install_home_manager_command"
    by (auto simp: tools_def)
  then show ?thesis
  proof cases
    case deps
    from run show ?thesis
    proof (cases rule: run_setup_cases)
      case (start_failed r0)
      with present show ?thesis by simp
    next
      case (unsupported r1)
      with present deps show ?thesis by simp
    next
      case (deps_failed p2 i2)
      with present deps show ?thesis by (auto simp: in_tool_calls)
    next
      case (nix_failed p2 i2 p3 i3)
      with present deps show ?thesis by (auto simp: in_tool_calls)
    next
      case (home_manager_failed p2 i2 p3 i3 p4 i4)
      with present deps show ?thesis by (auto simp: in_tool_calls)
    next
      case (applied p2 i2 p3 i3 p4 i4 r5)
      with present deps show ?thesis by (auto simp: in_tool_calls)
    qed
  next
    case nix
    from run show ?thesis
    proof (cases rule: run_setup_cases)
      case (start_failed r0)
      with present show ?thesis by simp
    next
      case (unsupported r1)
      with present nix show ?thesis by simp
    next
      case (deps_failed p2 i2)
      with present nix show ?thesis by (auto simp: in_tool_calls)
    next
      case (nix_failed p2 i2 p3 i3)
      with present nix show ?thesis by (auto simp: in_tool_calls)
    next
      case (home_manager_failed p2 i2 p3 i3 p4 i4)
      with present nix show ?thesis by (auto simp: in_tool_calls)
    next
      case (applied p2 i2 p3 i3 p4 i4 r5)
      with present nix show ?thesis by (auto simp: in_tool_calls)
    qed
  next
    case hm
    from run show ?thesis
    proof (cases rule: run_setup_cases)
      case (start_failed r0)
      with present show ?thesis by simp
    next
      case (unsupported r1)
      with present hm show ?thesis by simp
    next
      case (deps_failed p2 i2)
      with present hm show ?thesis by (auto simp: in_tool_calls)
    next
      case (nix_failed p2 i2 p3 i3)
      with present hm show ?thesis by (auto simp: in_tool_calls)
    next
      case (home_manager_failed p2 i2 p3 i3 p4 i4)
      with present hm show ?thesis by (auto simp: in_tool_calls)
    next
      case (applied p2 i2 p3 i3 p4 i4 r5)
      with present hm show ?thesis by (auto simp: in_tool_calls)
    qed
  qed
qed


lemma all_present_run:
  "run_setup (by_command (\<lambda>cmd cap. 0)) () ''.'' (Some ''https://example.com'') None ''home'' False
   = (Inr (),
      \<lparr>world = (),
       calls = [start_call ''.'' False 0, probe_call ''.'' ''apt'' 0,
                probe_call ''.'' deps_to_install 0, probe_call ''.'' ''nix'' 0,
                probe_call ''.'' ''home-manager'' 0,
                exec_call ''.'' (apply_command (Some ''https://example.com'') None ''home'')
                  (Some nix_env) 0],
       echoed = preamble ''.'' @ [''Applying personal configuration...'', success_message]\<rparr>)"
  by (simp add: prog_defs Let_def start_call_def probe_call_def exec_call_def preamble_def
        success_message_def)

theorem present_tool_is_not_installed_witness:
  "filter (\<lambda>c. args c = devcontainer_exec_argv ''.'' install_deps_command None)
     (calls (snd (run_setup (by_command (\<lambda>cmd cap. 0)) () ''.''
        (Some ''https://example.com'') None ''home'' False))) = []"
  using present_tool_is_not_installed [OF prod_run,
      where sub = "by_command (\<lambda>cmd cap. 0)" and w = "()" and ws = "''.''"
        and repo = "Some ''https://example.com''" and github = None and config = "''home''"
        and purge = False and name = deps_to_install and command = install_deps_command]
  by (simp add: all_present_run tools_def filter_empty_conv)

lemma without_remote_env_simps [simp]:
  "without_remote_env ws (start_call ws purge r)"
  "without_remote_env ws (probe_call ws name r)"
  "without_remote_env ws (exec_call ws command None r)"
  unfolding without_remote_env_def by (auto simp: probe_argv_exec)




section \<open>The apply step\<close>




lemma start_fails_run:
  "run_setup (by_command start_fails) () ''.'' (Some ''https://example.com'') None ''home'' False
   = (Inr (),
      \<lparr>world = (), calls = [start_call ''.'' False 1],
       echoed = [starting_message ''.'', ''Failed to run container!'']\<rparr>)"
  by (simp add: prog_defs Let_def start_call_def start_fails_def)

section \<open>How a failure ends the process\<close>

text \<open>
  Claim C9, as stated, fails. A container that does not start makes the command print its
  failure line and return, so the process ends with status 0 as after a success; a failed
  install raises \<^verbatim>\<open>CalledProcessError\<close>, so the process ends with status 1, and the last
  line the command itself printed is a progress line, not a failure message.
\<close>

theorem failure_kinds_differ:
  "exit_status (fst (run_setup (by_command start_fails) () ''.''
      (Some ''https://example.com'') None ''home'' False)) = 0
   \<and> exit_status (fst (run_setup (by_command installs_fail) () ''.''
      (Some ''https://example.com'') None ''home'' False)) = 1
   \<and> last (echoed (snd (run_setup (by_command installs_fail) () ''.''
      (Some ''https://example.com'') None ''home'' False)))
     = ''Installing system dependencies...''"
  by (simp add: start_fails_run installs_fail_run exit_status_def preamble_def)

text \<open>
  Claim C9, amended. A failed step ends the run at once, in one of two ways. When the
  container start or the probe for \<^verbatim>\<open>apt\<close> fails, the command prints a line naming the
  stage and returns (exit status 0). When an install or the apply command fails, the
  command raises \<^verbatim>\<open>CalledProcessError\<close> with the return code and the argument vector of
  that process (exit status 1), and the last line it printed is a progress line. The exit
  status tells these two groups apart and nothing more.
\<close>

theorem failure_outcomes:
  assumes run: "run_setup sub w ws repo github config purge = (res, s)"
    and k: "k < length (calls s)" and failed: "step_failed ws (calls s ! k)"
  shows "Suc k = length (calls s) \<and>
    (if args (calls s ! k) = start_argv ws purge
     then res = Inr () \<and> last (echoed s) = ''Failed to run container!'' \<and> exit_status res = 0
     else if captured (calls s ! k)
     then res = Inr () \<and> last (echoed s) = ''System doesn't contain supported package manager!''
       \<and> exit_status res = 0
     else res = Inl (CalledProcessError (returncode (calls s ! k)) (args (calls s ! k)))
       \<and> last (echoed s) \<in> set progress_lines \<and> exit_status res = 1)"
proof -
  have last_only: "Suc k = length (calls s) \<and> step_failed ws c"
    if "calls s = ys @ [c]" and "\<forall>y \<in> set ys. \<not> step_failed ws y" for ys c
    using failure_is_last [where P = "step_failed ws", OF that k failed] .
  from run show ?thesis
  proof (cases rule: run_setup_cases)
    case (start_failed r0)
    with k show ?thesis by (simp add: exit_status_def)
  next
    case (unsupported r1)
    have "Suc k = length (calls s)"
      using last_only [of "[start_call ws purge 0]" "probe_call ws ''apt'' r1"] unsupported(2)
      by simp
    with unsupported show ?thesis by (simp add: exit_status_def probe_argv_exec)
  next
    case (deps_failed p2 i2)
    have "Suc k = length (calls s)"
      using last_only [of
          "[start_call ws purge 0, probe_call ws ''apt'' 0, probe_call ws deps_to_install p2]"
          "exec_call ws install_deps_command None i2"] deps_failed(1,3)
      by (simp add: tool_calls_absent)
    with deps_failed show ?thesis
      by (simp add: tool_calls_absent exit_status_def exec_result_def preamble_def
            progress_lines_def)
  next
    case (nix_failed p2 i2 p3 i3)
    let ?ys = "[start_call ws purge 0, probe_call ws ''apt'' 0]
       @ tool_calls ws deps_to_install install_deps_command p2 i2 @ [probe_call ws ''nix'' p3]"
    have "\<forall>y \<in> set ?ys. \<not> step_failed ws y"
      using tools_passed(1) [OF nix_failed(1)] by auto
    moreover have eq: "calls s = ?ys @ [exec_call ws install_nix_command None i3]"
      using nix_failed(2,4) by (simp add: tool_calls_absent)
    ultimately have "Suc k = length (calls s)" using last_only by blast
    then have "calls s ! k = exec_call ws install_nix_command None i3"
      unfolding eq by (simp add: nth_append)
    with \<open>Suc k = length (calls s)\<close> nix_failed(3,5,6) show ?thesis
      by (simp add: exit_status_def exec_result_def progress_lines_def)
  next
    case (home_manager_failed p2 i2 p3 i3 p4 i4)
    let ?ys = "[start_call ws purge 0, probe_call ws ''apt'' 0]
       @ tool_calls ws deps_to_install install_deps_command p2 i2
       @ tool_calls ws ''nix'' install_nix_command p3 i3 @ [probe_call ws ''home-manager'' p4]"
    have "\<forall>y \<in> set ?ys. \<not> step_failed ws y"
      using tools_passed(1) [OF home_manager_failed(1)] tools_passed(2) [OF home_manager_failed(2)]
      by auto
    moreover have eq: "calls s = ?ys @ [exec_call ws install_home_manager_command None i4]"
      using home_manager_failed(3,5) by (simp add: tool_calls_absent)
    ultimately have "Suc k = length (calls s)" using last_only by blast
    then have "calls s ! k = exec_call ws install_home_manager_command None i4"
      unfolding eq by (simp add: nth_append)
    with \<open>Suc k = length (calls s)\<close> home_manager_failed(4,6,7) show ?thesis
      by (simp add: exit_status_def exec_result_def progress_lines_def)
  next
    case (applied p2 i2 p3 i3 p4 i4 r5)
    let ?ys = "[start_call ws purge 0, probe_call ws ''apt'' 0]
       @ tool_calls ws deps_to_install install_deps_command p2 i2
       @ tool_calls ws ''nix'' install_nix_command p3 i3
       @ tool_calls ws ''home-manager'' install_home_manager_command p4 i4"
    have "\<forall>y \<in> set ?ys. \<not> step_failed ws y"
      using tools_passed(1) [OF applied(1)] tools_passed(2) [OF applied(2)]
        tools_passed(3) [OF applied(3)]
      by auto
    moreover have eq: "calls s =
        ?ys @ [exec_call ws (apply_command repo github config) (Some nix_env) r5]"
      using applied(4) by simp
    ultimately have l: "Suc k = length (calls s) \<and>
        step_failed ws (exec_call ws (apply_command repo github config) (Some nix_env) r5)"
      using last_only by blast
    then have "calls s ! k = exec_call ws (apply_command repo github config) (Some nix_env) r5"
      unfolding eq by (simp add: nth_append)
    with l applied(5,6) show ?thesis
      by (simp add: exit_status_def exec_result_def progress_lines_def)
  qed
qed

theorem failure_outcomes_witness:
  "fst (run_setup (by_command installs_fail) () ''.''
      (Some ''https://example.com'') None ''home'' False)
   = Inl (CalledProcessError 2 (devcontainer_exec_argv ''.'' install_deps_command None))
   \<and> exit_status (fst (run_setup (by_command installs_fail) () ''.''
      (Some ''https://example.com'') None ''home'' False)) = 1"
  using failure_outcomes [OF prod_run,
      where sub = "by_command installs_fail" and w = "()" and ws = "''.''"
        and repo = "Some ''https://example.com''" and github = None and config = "''home''"
        and purge = False and k = 3]
  by (simp add: installs_fail_run)

section \<open>Scenarios\<close>

lemma start_call_eq [simp]:
  "start_call ws purge r = start_call ws purge r' \<longleftrightarrow> r = r'"
  "start_call ws purge r \<noteq> probe_call ws name r'"
  "start_call ws purge r \<noteq> exec_call ws command env r'"
  by (auto simp: start_call_def probe_call_def exec_call_def)

lemma exec_call_eq [simp]:
  "exec_call ws command env r = exec_call ws command' env' r' \<longleftrightarrow>
     devcontainer_exec_argv ws command env = devcontainer_exec_argv ws command' env' \<and> r = r'"
  "exec_call ws command env r \<noteq> probe_call ws name r'"
  "exec_call ws command env r \<noteq> start_call ws purge r'"
  by (auto simp: start_call_def probe_call_def exec_call_def)

text \<open>
  Claim C7. In a run that received 0 from the container start and a non-zero return code
  from the probe for \<^verbatim>\<open>apt\<close>, the setup stops: it returns after the line about the
  unsupported package manager, and the only processes it has started are the container
  start and that one probe, so no install command and no apply command was issued.
\<close>

theorem unsupported_environment_stops:
  assumes run: "run_setup sub w ws repo github config purge = (res, s)"
    and start_ok: "start_call ws purge 0 \<in> set (calls s)"
    and no_apt: "probe_call ws ''apt'' r \<in> set (calls s)" "r \<noteq> 0"
  shows "res = Inr ()
    \<and> calls s = [start_call ws purge 0, probe_call ws ''apt'' r]
    \<and> echoed s = preamble ws @ [''System doesn't contain supported package manager!'']"
  using run
proof (cases rule: run_setup_cases)
  case (start_failed r0)
  with start_ok show ?thesis by simp
next
  case (unsupported r1)
  with no_apt show ?thesis by simp
next
  case (deps_failed p2 i2)
  with no_apt show ?thesis by (simp add: in_tool_calls)
next
  case (nix_failed p2 i2 p3 i3)
  with no_apt show ?thesis by (simp add: in_tool_calls)
next
  case (home_manager_failed p2 i2 p3 i3 p4 i4)
  with no_apt show ?thesis by (simp add: in_tool_calls)
next
  case (applied p2 i2 p3 i3 p4 i4 r5)
  with no_apt show ?thesis by (simp add: in_tool_calls)
qed

lemma container_answers:
  "container (start_argv ''.'' False) False installed = (0, installed)"
  "container (probe_argv ''.'' name) True installed =
     (if list_ex (\<lambda>n. probe_argv ''.'' name = probe_argv ''.'' n) installed then 0 else 1,
      installed)"
  "container (devcontainer_exec_argv ''.'' install_deps_command None) False installed
     = (0, deps_to_install # installed)"
  "container (devcontainer_exec_argv ''.'' install_nix_command None) False installed
     = (0, ''nix'' # installed)"
  "container (devcontainer_exec_argv ''.'' install_home_manager_command None) False installed
     = (0, ''home-manager'' # installed)"
  "container (devcontainer_exec_argv ''.'' command (Some nix_env)) False installed
     = (1, installed)"
proof -
  have "''--remote-env'' \<notin> set (start_argv ''.'' False)"
    by (simp add: start_argv_def)
  moreover have "''--remote-env'' \<in> set (devcontainer_exec_argv ''.'' command (Some nix_env))"
    by (simp add: devcontainer_exec_argv_def nix_env_def)
  ultimately show
    "container (start_argv ''.'' False) False installed = (0, installed)"
    "container (probe_argv ''.'' name) True installed =
       (if list_ex (\<lambda>n. probe_argv ''.'' name = probe_argv ''.'' n) installed then 0 else 1,
        installed)"
    "container (devcontainer_exec_argv ''.'' install_deps_command None) False installed
       = (0, deps_to_install # installed)"
    "container (devcontainer_exec_argv ''.'' install_nix_command None) False installed
       = (0, ''nix'' # installed)"
    "container (devcontainer_exec_argv ''.'' install_home_manager_command None) False installed
       = (0, ''home-manager'' # installed)"
    "container (devcontainer_exec_argv ''.'' command (Some nix_env)) False installed
       = (1, installed)"
    by (simp_all add: container_def)
qed

lemma bare_container_run:
  "run_setup container [] ''.'' (Some ''https://example.com'') None ''home'' False
   = (Inr (),
      \<lparr>world = [],
       calls = [start_call ''.'' False 0, probe_call ''.'' ''apt'' 1],
       echoed = preamble ''.'' @ [''System doesn't contain supported package manager!'']\<rparr>)"
  by (simp add: prog_defs Let_def container_answers start_call_def probe_call_def preamble_def)

theorem unsupported_environment_stops_witness:
  "fst (run_setup container [] ''.'' (Some ''https://example.com'') None ''home'' False) = Inr ()
   \<and> calls (snd (run_setup container [] ''.'' (Some ''https://example.com'') None ''home'' False))
     = [start_call ''.'' False 0, probe_call ''.'' ''apt'' 1]"
  using unsupported_environment_stops [OF prod_run,
      where sub = container and w = "[]" and ws = "''.''"
        and repo = "Some ''https://example.com''" and github = None and config = "''home''"
        and purge = False and r = 1]
  by (simp add: bare_container_run)




section \<open>What the matcher decides\<close>

lemma conc_empty [simp]: "conc {} B = {}" "conc A {} = {}"
  by (auto simp: conc_def)

lemma conc_nil [simp]: "conc {[]} B = B" "conc A {[]} = A"
  by (auto simp: conc_def)

lemma concI: "xs \<in> A \<Longrightarrow> ys \<in> B \<Longrightarrow> xs @ ys \<in> conc A B"
  unfolding conc_def by blast

lemma concE:
  assumes "w \<in> conc A B"
  obtains xs ys where "w = xs @ ys" and "xs \<in> A" and "ys \<in> B"
  using assms unfolding conc_def by blast

lemma conc_assoc: "conc (conc A B) C = conc A (conc B C)"
proof (rule set_eqI, rule iffI)
  fix w assume "w \<in> conc (conc A B) C"
  then obtain u zs where u: "w = u @ zs" "u \<in> conc A B" "zs \<in> C" by (rule concE)
  from u(2) obtain xs ys where "u = xs @ ys" "xs \<in> A" "ys \<in> B" by (rule concE)
  with u have "w = xs @ (ys @ zs)" "xs \<in> A" "ys @ zs \<in> conc B C" by (simp_all add: concI)
  then show "w \<in> conc A (conc B C)" by (simp only: concI)
next
  fix w assume "w \<in> conc A (conc B C)"
  then obtain xs v where v: "w = xs @ v" "xs \<in> A" "v \<in> conc B C" by (rule concE)
  from v(3) obtain ys zs where "v = ys @ zs" "ys \<in> B" "zs \<in> C" by (rule concE)
  with v have "w = (xs @ ys) @ zs" "xs @ ys \<in> conc A B" "zs \<in> C" by (simp_all add: concI)
  then show "w \<in> conc (conc A B) C" by (simp only: concI)
qed

lemma conc_mono: "A \<subseteq> A' \<Longrightarrow> B \<subseteq> B' \<Longrightarrow> conc A B \<subseteq> conc A' B'"
  by (auto simp: conc_def)

lemma nil_in_conc [simp]: "[] \<in> conc A B \<longleftrightarrow> [] \<in> A \<and> [] \<in> B"
  by (auto simp: conc_def)

lemma conc_Un: "conc (A \<union> A') B = conc A B \<union> conc A' B"
  by (auto simp: conc_def)

lemma nil_in_copies [simp]: "[] \<in> copies n A \<longleftrightarrow> n = 0 \<or> [] \<in> A"
  by (induction n) auto

lemma nullable_lang: "nullable r \<longleftrightarrow> [] \<in> lang r"
  by (induction r) (auto intro: star_nil)

lemma rest_after_simps [simp]:
  "rest_after c {} = {}"
  "rest_after c {[]} = {}"
  "rest_after c (A \<union> B) = rest_after c A \<union> rest_after c B"
  "rest_after c (insert [] A) = rest_after c A"
  by (auto simp: rest_after_def)

lemma rest_after_conc:
  "rest_after c (conc A B) =
     conc (rest_after c A) B \<union> (if [] \<in> A then rest_after c B else {})"
proof (rule set_eqI, rule iffI)
  fix w assume "w \<in> rest_after c (conc A B)"
  then obtain xs ys where split: "c # w = xs @ ys" "xs \<in> A" "ys \<in> B"
    by (auto simp: rest_after_def conc_def)
  show "w \<in> conc (rest_after c A) B \<union> (if [] \<in> A then rest_after c B else {})"
  proof (cases xs)
    case Nil
    with split show ?thesis by (auto simp: rest_after_def)
  next
    case (Cons x xs')
    with split have "w = xs' @ ys" "c # xs' \<in> A" by auto
    with split(3) show ?thesis by (auto simp: rest_after_def conc_def)
  qed
next
  fix w assume "w \<in> conc (rest_after c A) B \<union> (if [] \<in> A then rest_after c B else {})"
  then consider (left) "w \<in> conc (rest_after c A) B" | (right) "[] \<in> A" "w \<in> rest_after c B"
    by (auto split: if_splits)
  then show "w \<in> rest_after c (conc A B)"
  proof cases
    case left
    then obtain xs ys where "w = xs @ ys" "c # xs \<in> A" "ys \<in> B"
      by (auto simp: rest_after_def conc_def)
    then have "c # w = (c # xs) @ ys \<and> c # xs \<in> A \<and> ys \<in> B" by simp
    then show ?thesis unfolding rest_after_def conc_def by blast
  next
    case right
    then have "c # w = [] @ (c # w) \<and> [] \<in> A \<and> c # w \<in> B" by (simp add: rest_after_def)
    then show ?thesis unfolding rest_after_def conc_def by blast
  qed
qed

lemma star_rest:
  assumes "u \<in> star A" and "u = c # w"
  shows "w \<in> conc (rest_after c A) (star A)"
  using assms
proof (induction rule: star.induct)
  case star_nil
  then show ?case by simp
next
  case (star_step xs ys)
  show ?case
  proof (cases xs)
    case Nil
    with star_step show ?thesis by simp
  next
    case (Cons x xs')
    with star_step.prems have "w = xs' @ ys" "x = c" by auto
    with Cons star_step.hyps show ?thesis by (auto simp: rest_after_def conc_def)
  qed
qed

lemma rest_after_star: "rest_after c (star A) = conc (rest_after c A) (star A)"
proof (rule set_eqI, rule iffI)
  fix w assume "w \<in> rest_after c (star A)"
  then show "w \<in> conc (rest_after c A) (star A)"
    using star_rest [of "c # w" A c w] by (simp add: rest_after_def)
next
  fix w assume "w \<in> conc (rest_after c A) (star A)"
  then obtain xs ys where "w = xs @ ys" "c # xs \<in> A" "ys \<in> star A"
    by (auto simp: rest_after_def conc_def)
  then have "(c # xs) @ ys \<in> star A" by (intro star_step)
  with \<open>w = xs @ ys\<close> show "w \<in> rest_after c (star A)" by (simp add: rest_after_def)
qed

lemma copies_grow: "[] \<in> A \<Longrightarrow> copies n A \<subseteq> copies (Suc n) A"
  by (auto simp: conc_def)

lemma rest_after_at_least:
  "rest_after c (conc (copies n A) (star A)) =
     conc (rest_after c A) (conc (copies (n - 1) A) (star A))"
proof (induction n)
  case 0
  then show ?case by (simp add: rest_after_star)
next
  case (Suc n)
  have "rest_after c (conc (copies (Suc n) A) (star A)) =
      conc (rest_after c A) (conc (copies n A) (star A))
      \<union> (if [] \<in> A then rest_after c (conc (copies n A) (star A)) else {})"
    by (simp add: conc_assoc rest_after_conc)
  moreover have "rest_after c (conc (copies n A) (star A))
      \<subseteq> conc (rest_after c A) (conc (copies n A) (star A))" if "[] \<in> A"
  proof -
    have "copies (n - 1) A \<subseteq> copies n A"
      using copies_grow [OF that, of "n - 1"] by (cases n) simp_all
    then have "conc (rest_after c A) (conc (copies (n - 1) A) (star A))
        \<subseteq> conc (rest_after c A) (conc (copies n A) (star A))"
      by (intro conc_mono subset_refl)
    with Suc.IH show ?thesis by simp
  qed
  ultimately show ?case by auto
qed

lemma after_char_lang: "lang (after_char c r) = rest_after c (lang r)"
proof (induction r)
  case (OneOf items)
  then show ?case by (auto simp: rest_after_def)
next
  case AnyChar
  then show ?case by (auto simp: rest_after_def)
next
  case (Seq r s)
  then show ?case by (simp add: rest_after_conc nullable_lang)
next
  case (Star r)
  then show ?case by (simp add: rest_after_star)
next
  case (OneOrMore r)
  then show ?case
    by (auto simp: rest_after_conc rest_after_star)
next
  case (AtLeast n r)
  then show ?case by (simp add: rest_after_at_least)
qed simp_all

lemma matches_lang: "matches r s \<longleftrightarrow> s \<in> lang r"
  by (induction s arbitrary: r) (simp_all add: nullable_lang after_char_lang rest_after_def)


subsection \<open>Runs of characters of one class\<close>

lemma in_singles: "w \<in> singles P \<longleftrightarrow> (\<exists>c. w = [c] \<and> P c)"
  unfolding singles_def by blast

lemma lang_OneOf: "lang (OneOf items) = singles (\<lambda>c. list_ex (in_item c) items)"
  unfolding singles_def by simp

lemma star_of_class: "star (singles P) = {w. list_all P w}"
proof (rule set_eqI, rule iffI)
  fix w assume "w \<in> star (singles P)"
  then have "list_all P w"
    by (induction rule: star.induct) (auto simp: in_singles)
  then show "w \<in> {w. list_all P w}" by simp
next
  fix w assume "w \<in> {w. list_all P w}"
  then have "list_all P w" by simp
  then show "w \<in> star (singles P)"
  proof (induction w)
    case Nil
    show ?case by (rule star_nil)
  next
    case (Cons c w)
    then have "[c] \<in> singles P" and "w \<in> star (singles P)" by (simp_all add: in_singles)
    then have "[c] @ w \<in> star (singles P)" by (rule star_step)
    then show ?case by simp
  qed
qed

lemma one_or_more_of_class:
  "conc (singles P) {w. list_all P w} = {w. w \<noteq> [] \<and> list_all P w}"
proof (rule set_eqI, rule iffI)
  fix w assume "w \<in> conc (singles P) {w. list_all P w}"
  then obtain xs ys where "w = xs @ ys" "xs \<in> singles P" "ys \<in> {w. list_all P w}"
    by (rule concE)
  then have "w \<noteq> [] \<and> list_all P w" by (auto simp: in_singles)
  then show "w \<in> {w. w \<noteq> [] \<and> list_all P w}" by simp
next
  fix w assume "w \<in> {w. w \<noteq> [] \<and> list_all P w}"
  then obtain c cs where w: "w = [c] @ cs" and "P c" "list_all P cs" by (cases w) auto
  then have "[c] \<in> singles P" "cs \<in> {w. list_all P w}" by (simp_all add: in_singles)
  then show "w \<in> conc (singles P) {w. list_all P w}" unfolding w by (rule concI)
qed

lemma copies_of_class: "copies n (singles P) = {w. length w = n \<and> list_all P w}"
proof (induction n)
  case 0
  then show ?case by auto
next
  case (Suc n)
  show ?case
  proof (rule set_eqI, rule iffI)
    fix w assume "w \<in> copies (Suc n) (singles P)"
    then have "w \<in> conc (singles P) {w. length w = n \<and> list_all P w}" using Suc by simp
    then obtain xs ys where "w = xs @ ys" "xs \<in> singles P"
      "ys \<in> {w. length w = n \<and> list_all P w}"
      by (rule concE)
    then have "length w = Suc n \<and> list_all P w" by (auto simp: in_singles)
    then show "w \<in> {w. length w = Suc n \<and> list_all P w}" by simp
  next
    fix w assume "w \<in> {w. length w = Suc n \<and> list_all P w}"
    then obtain c cs where w: "w = [c] @ cs" and "P c" "length cs = n \<and> list_all P cs"
      by (cases w) auto
    then have "[c] \<in> singles P" "cs \<in> copies n (singles P)"
      using Suc by (simp_all add: in_singles)
    then have "[c] @ cs \<in> conc (singles P) (copies n (singles P))" by (rule concI)
    then show "w \<in> copies (Suc n) (singles P)" unfolding w by simp
  qed
qed

lemma at_least_of_class:
  "conc {w. length w = n \<and> list_all P w} {w. list_all P w} = {w. n \<le> length w \<and> list_all P w}"
proof (rule set_eqI, rule iffI)
  fix w assume "w \<in> conc {w. length w = n \<and> list_all P w} {w. list_all P w}"
  then obtain xs ys where "w = xs @ ys" "xs \<in> {w. length w = n \<and> list_all P w}"
    "ys \<in> {w. list_all P w}"
    by (rule concE)
  then have "n \<le> length w \<and> list_all P w" by auto
  then show "w \<in> {w. n \<le> length w \<and> list_all P w}" by simp
next
  fix w assume "w \<in> {w. n \<le> length w \<and> list_all P w}"
  then have w: "n \<le> length w" "list_all P w" by simp_all
  have "take n w \<in> {w. length w = n \<and> list_all P w}"
    using w by (auto simp: list_all_iff dest: in_set_takeD)
  moreover have "drop n w \<in> {w. list_all P w}"
    using w by (auto simp: list_all_iff dest: in_set_dropD)
  ultimately have "take n w @ drop n w \<in> conc {w. length w = n \<and> list_all P w} {w. list_all P w}"
    by (rule concI)
  then show "w \<in> conc {w. length w = n \<and> list_all P w} {w. list_all P w}" by simp
qed

lemma lang_literal: "lang (literal s) = {s}"
proof (induction s)
  case Nil
  show ?case by simp
next
  case (Cons c s)
  have "conc {[c]} {s} = {c # s}"
    by (rule set_eqI) (auto elim!: concE intro: concI [of "[c]" "{[c]}" s "{s}", simplified])
  with Cons show ?case by (simp add: singles_def)
qed

lemma accepts_iff:
  "match_anchored r s \<longleftrightarrow> s \<in> lang r \<or> (\<exists>s'. s = s' @ [newline] \<and> s' \<in> lang r)"
proof -
  have "(s \<noteq> [] \<and> last s = newline \<and> butlast s \<in> lang r)
      \<longleftrightarrow> (\<exists>s'. s = s' @ [newline] \<and> s' \<in> lang r)"
  proof
    assume "s \<noteq> [] \<and> last s = newline \<and> butlast s \<in> lang r"
    then have "s = butlast s @ [newline] \<and> butlast s \<in> lang r"
      using append_butlast_last_id [of s] by simp
    then show "\<exists>s'. s = s' @ [newline] \<and> s' \<in> lang r" ..
  next
    assume "\<exists>s'. s = s' @ [newline] \<and> s' \<in> lang r"
    then show "s \<noteq> [] \<and> last s = newline \<and> butlast s \<in> lang r" by auto
  qed
  then show ?thesis by (simp add: match_anchored_def matches_lang)
qed


subsection \<open>The two patterns\<close>

lemma of_char_image_iff: "(of_char c :: nat) \<in> of_char ` A \<longleftrightarrow> c \<in> A"
  by (auto simp: image_iff)

lemma in_range:
  assumes "(of_char ` set cs :: nat set) = set [lo ..< Suc hi]"
  shows "(lo \<le> (of_char c :: nat) \<and> (of_char c :: nat) \<le> hi) \<longleftrightarrow> c \<in> set cs"
proof -
  have "(lo \<le> (of_char c :: nat) \<and> (of_char c :: nat) \<le> hi)
      \<longleftrightarrow> (of_char c :: nat) \<in> set [lo ..< Suc hi]"
    by (simp only: set_upt atLeastLessThan_iff less_Suc_eq_le)
  also have "\<dots> \<longleftrightarrow> (of_char c :: nat) \<in> of_char ` set cs" by (simp only: assms)
  also have "\<dots> \<longleftrightarrow> c \<in> set cs" by (rule of_char_image_iff)
  finally show ?thesis .
qed

lemma in_lower: "in_item c (Range CHR ''a'' CHR ''z'') \<longleftrightarrow> c \<in> set ''abcdefghijklmnopqrstuvwxyz''"
proof -
  have "(of_char ` set ''abcdefghijklmnopqrstuvwxyz'' :: nat set) = set [97 ..< Suc 122]"
    by simp
  from in_range [OF this, of c] show ?thesis by simp
qed

lemma in_upper: "in_item c (Range CHR ''A'' CHR ''Z'') \<longleftrightarrow> c \<in> set ''ABCDEFGHIJKLMNOPQRSTUVWXYZ''"
proof -
  have "(of_char ` set ''ABCDEFGHIJKLMNOPQRSTUVWXYZ'' :: nat set) = set [65 ..< Suc 90]"
    by simp
  from in_range [OF this, of c] show ?thesis by simp
qed

lemma in_digit: "in_item c (Range CHR ''0'' CHR ''9'') \<longleftrightarrow> c \<in> set ''0123456789''"
proof -
  have "(of_char ` set ''0123456789'' :: nat set) = set [48 ..< Suc 57]"
    by simp
  from in_range [OF this, of c] show ?thesis by simp
qed

lemma segment_class:
  "list_ex (in_item c)
     [Range CHR ''A'' CHR ''Z'', Range CHR ''a'' CHR ''z'', Range CHR ''0'' CHR ''9'',
      Lit CHR ''_'', Lit CHR ''.'', Lit CHR ''-''] \<longleftrightarrow> segment_char c"
proof -
  have "segment_char c \<longleftrightarrow>
      c \<in> set ''ABCDEFGHIJKLMNOPQRSTUVWXYZ'' \<or> c \<in> set ''abcdefghijklmnopqrstuvwxyz''
      \<or> c \<in> set ''0123456789'' \<or> c = CHR ''_'' \<or> c = CHR ''.'' \<or> c = CHR ''-''"
    unfolding segment_char_def by auto
  moreover have "list_ex (in_item c)
     [Range CHR ''A'' CHR ''Z'', Range CHR ''a'' CHR ''z'', Range CHR ''0'' CHR ''9'',
      Lit CHR ''_'', Lit CHR ''.'', Lit CHR ''-''] \<longleftrightarrow>
      c \<in> set ''ABCDEFGHIJKLMNOPQRSTUVWXYZ'' \<or> c \<in> set ''abcdefghijklmnopqrstuvwxyz''
      \<or> c \<in> set ''0123456789'' \<or> c = CHR ''_'' \<or> c = CHR ''.'' \<or> c = CHR ''-''"
    by (simp only: list_ex_Nil_iff list_ex_Cons_iff in_upper in_lower in_digit in_item.simps(1)
          simp_thms)
  ultimately show ?thesis by (simp only:)
qed

lemma lang_github_segment: "lang github_segment = {w. w \<noteq> [] \<and> list_all segment_char w}"
  unfolding github_segment_def
  by (simp only: lang.simps(9) lang_OneOf segment_class star_of_class one_or_more_of_class)

lemma lang_slash: "lang (OneOf [Lit c]) = {[c]}"
  by auto

lemma github_lang_shape: "g \<in> lang github_pattern \<longleftrightarrow> github_shape g"
proof
  assume "g \<in> lang github_pattern"
  then have "g \<in> conc (lang github_segment) (conc {''/''} (lang github_segment))"
    by (simp only: github_pattern_def lang.simps(5) lang_slash)
  then obtain owner v where 1: "g = owner @ v" "owner \<in> lang github_segment"
    "v \<in> conc {''/''} (lang github_segment)"
    by (rule concE)
  from 1(3) obtain sl repo where 2: "v = sl @ repo" "sl \<in> {''/''}" "repo \<in> lang github_segment"
    by (rule concE)
  with 1 show "github_shape g"
    unfolding github_shape_def lang_github_segment by auto
next
  assume "github_shape g"
  then obtain owner repo where g: "g = owner @ ''/'' @ repo"
    and "owner \<in> lang github_segment" "repo \<in> lang github_segment"
    unfolding github_shape_def lang_github_segment by auto
  then have "owner @ (''/'' @ repo) \<in> conc (lang github_segment) (conc {''/''} (lang github_segment))"
    by (intro concI) simp_all
  then show "g \<in> lang github_pattern"
    unfolding g by (simp only: github_pattern_def lang.simps(5) lang_slash)
qed

text \<open>
  What \<^verbatim>\<open>validate_github\<close> accepts: the references of the spec's shape, and each of them
  followed by one newline.
\<close>

lemma validate_github_accepts_iff:
  "validate_github (Some g) = Inr (Some g)
     \<longleftrightarrow> github_shape g \<or> (\<exists>g'. g = g' @ [newline] \<and> github_shape g')"
  by (simp add: validate_github_def accepts_iff github_lang_shape)


lemma host_class:
  "list_ex (in_item c) [WordChar, Lit CHR ''-'', Lit CHR ''.''] \<longleftrightarrow> host_char c"
  by (simp add: host_char_def)

lemma lower_class: "list_ex (in_item c) [Range CHR ''a'' CHR ''z''] \<longleftrightarrow> lower_letter c"
  by (simp only: list_ex_Nil_iff list_ex_Cons_iff in_lower lower_letter_def simp_thms)

lemma lang_host:
  "lang (OneOrMore (OneOf [WordChar, Lit CHR ''-'', Lit CHR ''.'']))
     = {w. w \<noteq> [] \<and> list_all host_char w}"
  by (simp only: lang.simps(9) lang_OneOf host_class star_of_class one_or_more_of_class)

lemma lang_tld:
  "lang (AtLeast 2 (OneOf [Range CHR ''a'' CHR ''z'']))
     = {w. 2 \<le> length w \<and> list_all lower_letter w}"
  by (simp only: lang.simps(10) lang_OneOf lower_class star_of_class copies_of_class
        at_least_of_class)

lemma lang_AnyChar: "lang AnyChar = singles (\<lambda>c. c \<noteq> newline)"
  unfolding singles_def by simp

lemma lang_path:
  "lang (Opt (Seq (OneOf [Lit CHR ''/'']) (Star AnyChar)))
     = insert [] (conc {''/''} {w. list_all (\<lambda>c. c \<noteq> newline) w})"
  by (simp only: lang.simps(5,7,8) lang_slash lang_AnyChar star_of_class)

lemma lang_optional_s: "lang (Opt (OneOf [Lit CHR ''s''])) = {[], ''s''}"
  by (simp only: lang.simps(7) lang_slash)

lemma lang_url_pattern:
  "lang url_pattern =
     conc {''http''} (conc {[], ''s''} (conc {''://''}
       (conc {w. w \<noteq> [] \<and> list_all host_char w} (conc {''.''}
         (conc {w. 2 \<le> length w \<and> list_all lower_letter w}
            (insert [] (conc {''/''} {w. list_all (\<lambda>c. c \<noteq> newline) w})))))))"
  unfolding url_pattern_def
  by (simp only: lang.simps(5) lang_literal lang_optional_s lang_host lang_slash lang_tld
        lang_path)

lemma url_lang_shape: "u \<in> lang url_pattern \<longleftrightarrow> url_shape u"
proof
  assume "u \<in> lang url_pattern"
  then obtain a r1 where 1: "u = a @ r1" "a \<in> {''http''}"
    and m1: "r1 \<in> conc {[], ''s''} (conc {''://''}
       (conc {w. w \<noteq> [] \<and> list_all host_char w} (conc {''.''}
         (conc {w. 2 \<le> length w \<and> list_all lower_letter w}
            (insert [] (conc {''/''} {w. list_all (\<lambda>c. c \<noteq> newline) w}))))))"
    unfolding lang_url_pattern by (rule concE)
  from m1 obtain b r2 where 2: "r1 = b @ r2" "b \<in> {[], ''s''}"
    and m2: "r2 \<in> conc {''://''}
       (conc {w. w \<noteq> [] \<and> list_all host_char w} (conc {''.''}
         (conc {w. 2 \<le> length w \<and> list_all lower_letter w}
            (insert [] (conc {''/''} {w. list_all (\<lambda>c. c \<noteq> newline) w})))))"
    by (rule concE)
  from m2 obtain c r3 where 3: "r2 = c @ r3" "c \<in> {''://''}"
    and m3: "r3 \<in> conc {w. w \<noteq> [] \<and> list_all host_char w} (conc {''.''}
         (conc {w. 2 \<le> length w \<and> list_all lower_letter w}
            (insert [] (conc {''/''} {w. list_all (\<lambda>c. c \<noteq> newline) w}))))"
    by (rule concE)
  from m3 obtain host r4 where 4: "r3 = host @ r4" "host \<in> {w. w \<noteq> [] \<and> list_all host_char w}"
    and m4: "r4 \<in> conc {''.''}
         (conc {w. 2 \<le> length w \<and> list_all lower_letter w}
            (insert [] (conc {''/''} {w. list_all (\<lambda>c. c \<noteq> newline) w})))"
    by (rule concE)
  from m4 obtain d r5 where 5: "r4 = d @ r5" "d \<in> {''.''}"
    and m5: "r5 \<in> conc {w. 2 \<le> length w \<and> list_all lower_letter w}
            (insert [] (conc {''/''} {w. list_all (\<lambda>c. c \<noteq> newline) w}))"
    by (rule concE)
  from m5 obtain tld path where 6: "r5 = tld @ path"
    "tld \<in> {w. 2 \<le> length w \<and> list_all lower_letter w}"
    and path: "path \<in> insert [] (conc {''/''} {w. list_all (\<lambda>c. c \<noteq> newline) w})"
    by (rule concE)
  have "path = [] \<or> (\<exists>rest. path = ''/'' @ rest \<and> list_all (\<lambda>c. c \<noteq> newline) rest)"
  proof (cases "path = []")
    case True
    then show ?thesis by simp
  next
    case False
    with path have "path \<in> conc {''/''} {w. list_all (\<lambda>c. c \<noteq> newline) w}" by simp
    then obtain e rest where "path = e @ rest" "e \<in> {''/''}"
      "rest \<in> {w. list_all (\<lambda>c. c \<noteq> newline) w}"
      by (rule concE)
    then show ?thesis by auto
  qed
  moreover have "u = (a @ b) @ ''://'' @ host @ ''.'' @ tld @ path"
    using 1 2 3 4 5 6 by simp
  moreover have "a @ b = ''http'' \<or> a @ b = ''https''" using 1 2 by auto
  ultimately show "url_shape u" unfolding url_shape_def using 4(2) 6(2) by blast
next
  assume "url_shape u"
  then obtain scheme host tld path where u: "u = scheme @ ''://'' @ host @ ''.'' @ tld @ path"
    and scheme: "scheme = ''http'' \<or> scheme = ''https''"
    and host': "host \<noteq> []" "list_all host_char host"
    and tld': "2 \<le> length tld" "list_all lower_letter tld"
    and path: "path = [] \<or> (\<exists>rest. path = ''/'' @ rest \<and> list_all (\<lambda>c. c \<noteq> newline) rest)"
    unfolding url_shape_def by blast
  from host' have host: "host \<in> {w. w \<noteq> [] \<and> list_all host_char w}" by simp
  from tld' have tld: "tld \<in> {w. 2 \<le> length w \<and> list_all lower_letter w}" by simp
  from scheme obtain b where b: "scheme = ''http'' @ b" "b \<in> {[], ''s''}" by auto
  have "path \<in> insert [] (conc {''/''} {w. list_all (\<lambda>c. c \<noteq> newline) w})"
  proof (cases "path = []")
    case True
    then show ?thesis by simp
  next
    case False
    with path obtain rest where "path = ''/'' @ rest" "list_all (\<lambda>c. c \<noteq> newline) rest"
      by auto
    then have "path \<in> conc {''/''} {w. list_all (\<lambda>c. c \<noteq> newline) w}"
      using concI [of "''/''" "{''/''}" rest "{w. list_all (\<lambda>c. c \<noteq> newline) w}"]
      by (simp del: append.simps)
    then show ?thesis by simp
  qed
  with tld have s1: "tld @ path \<in> conc {w. 2 \<le> length w \<and> list_all lower_letter w}
            (insert [] (conc {''/''} {w. list_all (\<lambda>c. c \<noteq> newline) w}))"
    by (rule concI)
  have s2: "''.'' @ tld @ path \<in> conc {''.''}
         (conc {w. 2 \<le> length w \<and> list_all lower_letter w}
            (insert [] (conc {''/''} {w. list_all (\<lambda>c. c \<noteq> newline) w})))"
    by (rule concI [OF _ s1]) simp
  have s3: "host @ ''.'' @ tld @ path \<in> conc {w. w \<noteq> [] \<and> list_all host_char w}
       (conc {''.''}
         (conc {w. 2 \<le> length w \<and> list_all lower_letter w}
            (insert [] (conc {''/''} {w. list_all (\<lambda>c. c \<noteq> newline) w}))))"
    by (rule concI [OF host s2])
  have s4: "''://'' @ host @ ''.'' @ tld @ path \<in> conc {''://''}
       (conc {w. w \<noteq> [] \<and> list_all host_char w} (conc {''.''}
         (conc {w. 2 \<le> length w \<and> list_all lower_letter w}
            (insert [] (conc {''/''} {w. list_all (\<lambda>c. c \<noteq> newline) w})))))"
    by (rule concI [OF _ s3]) simp
  have s5: "b @ ''://'' @ host @ ''.'' @ tld @ path \<in> conc {[], ''s''} (conc {''://''}
       (conc {w. w \<noteq> [] \<and> list_all host_char w} (conc {''.''}
         (conc {w. 2 \<le> length w \<and> list_all lower_letter w}
            (insert [] (conc {''/''} {w. list_all (\<lambda>c. c \<noteq> newline) w}))))))"
    by (rule concI [OF b(2) s4])
  have "''http'' @ b @ ''://'' @ host @ ''.'' @ tld @ path \<in> lang url_pattern"
    unfolding lang_url_pattern by (rule concI [OF _ s5]) simp
  with u b(1) show "u \<in> lang url_pattern" by simp
qed

text \<open>
  What \<^verbatim>\<open>validate_url\<close> accepts: the URLs of the spec's shape, and each of them followed
  by one newline.
\<close>

lemma validate_url_accepts_iff:
  "validate_url (Some u) = Inr (Some u)
     \<longleftrightarrow> url_shape u \<or> (\<exists>u'. u = u' @ [newline] \<and> url_shape u')"
  by (simp add: validate_url_def accepts_iff url_lang_shape)

lemmas regex_eval =
  match_anchored_def url_pattern_def github_pattern_def github_segment_def newline_def
  unicode_word_def ascii_word_def validate_url_def validate_github_def


lemma validate_url_simps:
  "validate_url None = Inr None"
  "validate_url (Some u) =
     (if match_anchored url_pattern u then Inr (Some u) else Inl (invalid_url u))"
  by (simp_all add: validate_url_def invalid_url_def)

lemma validate_github_simps:
  "validate_github None = Inr None"
  "validate_github (Some g) =
     (if match_anchored github_pattern g then Inr (Some g) else Inl invalid_github)"
  by (simp_all add: validate_github_def invalid_github_def)

lemma params_get_simps [simp]:
  "params_get Map.empty name = None"
  "params_get (m(name \<mapsto> v)) name = v"
  "name' \<noteq> name \<Longrightarrow> params_get (m(name \<mapsto> v)) name' = params_get m name'"
  by (simp_all add: params_get_def)

lemma remdups_snoc:
  "remdups (ys @ [x]) = filter (\<lambda>y. y \<noteq> x) (remdups ys) @ [x]"
  by (induction ys) auto

lemma first_occurrences_Cons:
  "rev (remdups (rev (x # xs))) = x # filter (\<lambda>y. y \<noteq> x) (rev (remdups (rev xs)))"
  by (simp add: remdups_snoc rev_filter)

lemma distinct_in_singleton:
  assumes "distinct xs" and "set xs \<subseteq> {b}"
  shows "xs = (if b \<in> set xs then [b] else [])"
proof (cases xs)
  case Nil
  then show ?thesis by simp
next
  case (Cons y ys)
  with assms have "y = b" and "set ys \<subseteq> {b}" and "b \<notin> set ys" by auto
  then have "ys = []" by (cases ys) auto
  with Cons \<open>y = b\<close> show ?thesis by simp
qed

lemma others_after_first:
  assumes "set ns \<subseteq> {a, b}" and "a \<noteq> b"
  shows "filter (\<lambda>y. y \<noteq> a) (rev (remdups (rev ns))) = (if b \<in> set ns then [b] else [])"
proof -
  let ?l = "filter (\<lambda>y. y \<noteq> a) (rev (remdups (rev ns)))"
  have "distinct ?l" by simp
  moreover have s: "set ?l = set ns - {a}" by auto
  with assms have "set ?l \<subseteq> {b}" by auto
  ultimately have "?l = (if b \<in> set ?l then [b] else [])" by (rule distinct_in_singleton)
  with s assms(2) show ?thesis by auto
qed

lemma param_names: "set (map (\<lambda>(opt, v). param_name opt) opts) \<subseteq> {''repo'', ''github''}"
proof
  fix n assume "n \<in> set (map (\<lambda>(opt, v). param_name opt) opts)"
  then obtain opt where "n = param_name opt" by auto
  then show "n \<in> {''repo'', ''github''}" by (cases opt) simp_all
qed

lemma processing_order_Nil: "processing_order [] = [''repo'', ''github'']"
  by (simp add: processing_order_def declaration_order_def)

lemma processing_order_repo_first:
  "processing_order ((RepoOption, v) # rest) = [''repo'', ''github'']"
proof -
  let ?ns = "map (\<lambda>(opt, v). param_name opt) rest"
  have "filter (\<lambda>y. y \<noteq> ''repo'') (rev (remdups (rev ?ns)))
      = (if ''github'' \<in> set ?ns then [''github''] else [])"
    using param_names [of rest] by (intro others_after_first) simp_all
  then show ?thesis
    by (simp add: processing_order_def declaration_order_def Let_def first_occurrences_Cons
          del: rev.simps remdups.simps)
qed

lemma processing_order_github_first:
  "processing_order ((GithubOption, v) # rest) = [''github'', ''repo'']"
proof -
  let ?ns = "map (\<lambda>(opt, v). param_name opt) rest"
  have "set ?ns \<subseteq> {''github'', ''repo''}" using param_names [of rest] by auto
  then have "filter (\<lambda>y. y \<noteq> ''github'') (rev (remdups (rev ?ns)))
      = (if ''repo'' \<in> set ?ns then [''repo''] else [])"
    by (intro others_after_first) simp_all
  then show ?thesis
    by (simp add: processing_order_def declaration_order_def Let_def first_occurrences_Cons
          del: rev.simps remdups.simps)
qed

lemma given_first:
  "given_value ((opt, v) # rest) (param_name opt) \<noteq> None"
  by (simp add: given_value_def map_of_eq_None_iff image_iff)

lemma given_Nil: "given_value [] name = None"
  by (simp add: given_value_def)


lemma names_differ [simp]: "''repo'' \<noteq> ''github''" "''github'' \<noteq> ''repo''"
  by simp_all

lemma params_of_simps:
  "Map.empty(''repo'' \<mapsto> Some u, ''github'' \<mapsto> None) = params_of (Url u)"
  "Map.empty(''github'' \<mapsto> None, ''repo'' \<mapsto> Some u) = params_of (Url u)"
  "Map.empty(''repo'' \<mapsto> None, ''github'' \<mapsto> Some g) = params_of (GithubRef g)"
  "Map.empty(''github'' \<mapsto> Some g, ''repo'' \<mapsto> None) = params_of (GithubRef g)"
  by (auto simp: params_of_def fun_eq_iff)

lemmas callback_defs =
  callback_of_def repo_callback_def github_callback_def validate_sources_def
  validate_url_simps validate_github_simps missing_source_def conflicting_sources_def Let_def

lemma repo_then_github:
  "process_params [''repo'', ''github''] gv Map.empty =
     (case (gv ''repo'', gv ''github'') of
        (None, None) \<Rightarrow> Inl missing_source
      | (Some u, None) \<Rightarrow>
          if match_anchored url_pattern u then Inr (params_of (Url u)) else Inl (invalid_url u)
      | (None, Some g) \<Rightarrow>
          if match_anchored github_pattern g then Inr (params_of (GithubRef g))
          else Inl invalid_github
      | (Some u, Some g) \<Rightarrow>
          if \<not> match_anchored url_pattern u then Inl (invalid_url u)
          else if \<not> match_anchored github_pattern g then Inl invalid_github
          else Inl conflicting_sources)"
  by (cases "gv ''repo''"; cases "gv ''github''") (simp_all add: callback_defs params_of_simps)

lemma github_then_repo:
  assumes "gv ''github'' = Some g"
  shows "process_params [''github'', ''repo''] gv Map.empty =
     (case gv ''repo'' of
        None \<Rightarrow>
          if match_anchored github_pattern g then Inr (params_of (GithubRef g))
          else Inl invalid_github
      | Some u \<Rightarrow>
          if \<not> match_anchored github_pattern g then Inl invalid_github
          else if \<not> match_anchored url_pattern u then Inl (invalid_url u)
          else Inl conflicting_sources)"
  using assms by (cases "gv ''repo''") (simp_all add: callback_defs params_of_simps)

section \<open>Choosing the configuration source\<close>

text \<open>
  The outcome of the selection in terms of the matcher, for every command line.
\<close>

lemma select_sources_by_match:
  "select_sources opts =
     (case (given_value opts ''repo'', given_value opts ''github'') of
        (None, None) \<Rightarrow> Inl missing_source
      | (Some u, None) \<Rightarrow>
          if match_anchored url_pattern u then Inr (params_of (Url u)) else Inl (invalid_url u)
      | (None, Some g) \<Rightarrow>
          if match_anchored github_pattern g then Inr (params_of (GithubRef g))
          else Inl invalid_github
      | (Some u, Some g) \<Rightarrow>
          if match_anchored url_pattern u \<and> match_anchored github_pattern g
          then Inl conflicting_sources
          else if \<not> match_anchored github_pattern g
                  \<and> (hd (processing_order opts) = ''github'' \<or> match_anchored url_pattern u)
          then Inl invalid_github
          else Inl (invalid_url u))"
proof (cases opts)
  case Nil
  show ?thesis unfolding Nil select_sources_def processing_order_Nil repo_then_github
    by (simp add: given_Nil)
next
  case (Cons first rest)
  obtain opt v where first: "first = (opt, v)" by (cases first)
  show ?thesis
  proof (cases opt)
    case RepoOption
    with Cons first have order: "processing_order opts = [''repo'', ''github'']"
      by (simp add: processing_order_repo_first)
    show ?thesis unfolding select_sources_def order repo_then_github
      by (simp split: option.splits)
  next
    case GithubOption
    with Cons first have order: "processing_order opts = [''github'', ''repo'']"
      by (simp add: processing_order_github_first)
    from Cons first GithubOption given_first [of opt v rest]
    obtain g where g: "given_value opts ''github'' = Some g" by auto
    show ?thesis
      unfolding select_sources_def order github_then_repo [where gv = "given_value opts", OF g]
      by (simp add: g split: option.splits)
  qed
qed

text \<open>
  Claim C1, as stated, fails twice. With both options given and the URL malformed the
  error is the one of the malformed URL, not the conflict. And were the callback of
  \<^verbatim>\<open>github\<close> to run first with only a URL given, it would report a missing source: the
  outcome holds for the orders click produces, not for every order.
\<close>

theorem source_selection_counterexample:
  "select_sources [(RepoOption, ''not-a-url''), (GithubOption, ''octocat/hello-world'')]
     = Inl (BadParameter ''Invalid URL: not-a-url'')
   \<and> process_params [''github'', ''repo''] [''repo'' \<mapsto> ''https://example.com''] Map.empty
     = Inl (BadParameter ''Must specify either --repo or --github'')"
proof -
  have "\<not> match_anchored url_pattern ''not-a-url''"
    by (simp add: regex_eval)
  then show ?thesis
    by (simp add: select_sources_def processing_order_repo_first given_value_def
          callback_defs invalid_url_def)
qed

text \<open>
  Claim C1, amended. A value is well-formed when it has the shape the spec gives its
  option, \<open>url_shape\<close> or \<open>github_shape\<close>, and malformed when it has not. Take a command
  line none of whose values is a well-formed value followed by one newline (on such a
  value the validators depart from the shapes, which is the matter of C4 and C5 and is
  left out here). Then, with the callbacks run in click's order: no option given yields
  the missing-source error; one option given yields the source when its value is
  well-formed and the format error of that option when it is malformed; both options given
  yield the conflict error when both values are well-formed, and otherwise the format
  error of the first malformed value in processing order.
\<close>

theorem source_selection:
  assumes "\<forall>u. given_value opts ''repo'' = Some u \<longrightarrow> \<not> followed_by_newline url_shape u"
    and "\<forall>g. given_value opts ''github'' = Some g \<longrightarrow> \<not> followed_by_newline github_shape g"
  shows "select_sources opts =
     (case (given_value opts ''repo'', given_value opts ''github'') of
        (None, None) \<Rightarrow> Inl missing_source
      | (Some u, None) \<Rightarrow>
          if url_shape u then Inr (params_of (Url u)) else Inl (invalid_url u)
      | (None, Some g) \<Rightarrow>
          if github_shape g then Inr (params_of (GithubRef g)) else Inl invalid_github
      | (Some u, Some g) \<Rightarrow>
          if url_shape u \<and> github_shape g
          then Inl conflicting_sources
          else if \<not> github_shape g \<and> (hd (processing_order opts) = ''github'' \<or> url_shape u)
          then Inl invalid_github
          else Inl (invalid_url u))"
proof -
  have u: "match_anchored url_pattern u \<longleftrightarrow> url_shape u"
    if "given_value opts ''repo'' = Some u" for u
    using assms(1) that
    by (auto simp: match_anchored_def matches_lang url_lang_shape followed_by_newline_def)
  have g: "match_anchored github_pattern g \<longleftrightarrow> github_shape g"
    if "given_value opts ''github'' = Some g" for g
    using assms(2) that
    by (auto simp: match_anchored_def matches_lang github_lang_shape followed_by_newline_def)
  show ?thesis
    unfolding select_sources_by_match
    by (cases "given_value opts ''repo''"; cases "given_value opts ''github''")
       (simp_all add: u g)
qed

theorem source_selection_witness:
  "select_sources [(GithubOption, ''octocat/hello-world'')]
     = Inr (params_of (GithubRef ''octocat/hello-world''))"
proof -
  have "matches github_pattern ''octocat/hello-world''"
    by (simp add: regex_eval)
  then have "github_shape ''octocat/hello-world''"
    by (simp add: matches_lang github_lang_shape)
  then show ?thesis
    using source_selection [of "[(GithubOption, ''octocat/hello-world'')]"]
    by (simp add: given_value_def followed_by_newline_def newline_def)
qed

section \<open>The two validators\<close>

lemma validate_url_examples:
  "validate_url (Some ''https://example.com'') = Inr (Some ''https://example.com'')"
  "validate_url (Some ''http://sub.example.co/path'') = Inr (Some ''http://sub.example.co/path'')"
  "validate_url (Some ''ftp://x.com'') = Inl (invalid_url ''ftp://x.com'')"
  "validate_url (Some ''not-a-url'') = Inl (invalid_url ''not-a-url'')"
  "validate_url (Some ''https://nohost'') = Inl (invalid_url ''https://nohost'')"
  by (simp_all add: regex_eval invalid_url_def)

lemma validate_github_examples:
  "validate_github (Some ''octocat/hello-world'') = Inr (Some ''octocat/hello-world'')"
  "validate_github (Some ''octocat'') = Inl invalid_github"
  "validate_github (Some ''octocat/'') = Inl invalid_github"
  "validate_github (Some ''/hello-world'') = Inl invalid_github"
  "validate_github (Some ''octocat/hello world'') = Inl invalid_github"
  by (simp_all add: regex_eval invalid_github_def)

text \<open>
  Claim C4 holds on its five examples and fails on a URL followed by a newline: \<^verbatim>\<open>$\<close>
  stands before a newline that ends the string too, so the validator accepts
  \<^verbatim>\<open>https://example.com\n\<close>, which has no top-level label of letters at its end and no
  path.
\<close>

theorem validate_url_accepts_trailing_newline:
  "validate_url (Some (''https://example.com'' @ [newline]))
     = Inr (Some (''https://example.com'' @ [newline]))"
  by (simp add: regex_eval)

text \<open>
  Claim C5 holds on its five examples and fails on a reference followed by a newline: the
  validator accepts \<^verbatim>\<open>octocat/hello-world\n\<close>, whose second segment has a character outside
  \<^verbatim>\<open>[A-Za-z0-9_.-]\<close>.
\<close>

theorem validate_github_accepts_trailing_newline:
  "validate_github (Some (''octocat/hello-world'' @ [newline]))
     = Inr (Some (''octocat/hello-world'' @ [newline]))"
  by (simp add: regex_eval)

section \<open>The capability probe\<close>

lemma shlex_safe_not_special: "shlex_safe c \<Longrightarrow> \<not> sh_special c"
  by (auto simp: shlex_safe_def ascii_word_def sh_special_def squote_def dquote_def)

lemma scan_safe:
  assumes "list_all shlex_safe s" and "s \<noteq> []"
  shows "sh_scan Unquoted started w (s @ rest) = sh_scan Unquoted True (w @ s) rest"
  using assms
proof (induction s arbitrary: started w)
  case Nil
  then show ?case by simp
next
  case (Cons c s)
  from Cons.prems have safe: "shlex_safe c" by simp
  then have c: "c \<noteq> squote" "c \<noteq> dquote" "c \<noteq> CHR '' ''" "c \<noteq> CHR 0x09" "\<not> sh_special c"
    using shlex_safe_not_special [OF safe] by (auto simp: sh_special_def)
  show ?case
  proof (cases "s = []")
    case True
    with c show ?thesis by simp
  next
    case False
    with Cons.IH [of True "w @ [c]"] Cons.prems c show ?thesis by simp
  qed
qed

lemma scan_single_quoted:
  "sh_scan InSingle True w (replace_squote s @ rest) = sh_scan InSingle True (w @ s) rest"
proof (induction s arbitrary: w)
  case Nil
  then show ?case by simp
next
  case (Cons c s)
  show ?case
  proof (cases "c = squote")
    case True
    have "sh_scan InSingle True w (replace_squote (c # s) @ rest)
        = sh_scan InSingle True (w @ [squote]) (replace_squote s @ rest)"
      using True by (simp add: squote_def dquote_def)
    with Cons.IH [of "w @ [squote]"] True show ?thesis by simp
  next
    case False
    with Cons.IH [of "w @ [c]"] show ?thesis by simp
  qed
qed

lemma scan_command_v:
  "sh_words (''command -v '' @ rest) =
     map_option (\<lambda>ws. ''command'' # ''-v'' # ws) (sh_scan Unquoted False [] rest)"
  by (simp add: sh_words_def sh_special_def squote_def dquote_def option.map_comp comp_def)

lemma quoted_word: "sh_scan Unquoted False [] (shlex_quote name) = Some [name]"
proof (cases "name = []")
  case True
  then show ?thesis by (simp add: shlex_quote_def)
next
  case False
  show ?thesis
  proof (cases "list_all shlex_safe name")
    case True
    with False scan_safe [of name False "[]" "[]"] show ?thesis
      by (simp add: shlex_quote_def)
  next
    case unsafe: False
    with False scan_single_quoted [of "[]" name "[squote]"] show ?thesis
      by (simp add: shlex_quote_def)
  qed
qed

text \<open>
  Claim C10. For every name the probe starts one process, \<^verbatim>\<open>devcontainer exec\<close> with
  \<^verbatim>\<open>bash -c\<close> and the command \<^verbatim>\<open>command -v\<close> followed by the quoted name, its output
  captured and not looked at, and returns whether the return code is 0. The shell reads
  that command as three literal words, the third being the name itself, whatever
  characters the name has.
\<close>

theorem probe_quotes_name:
  "command_in_container_available sub ws name s =
     (Inr (fst (sub (probe_argv ws name) True (world s)) = 0),
      s\<lparr>world := snd (sub (probe_argv ws name) True (world s)),
        calls := calls s @
          [\<lparr>args = [''devcontainer'', ''exec'', ''--workspace-folder'', ws, ''bash'', ''-c'',
                     ''command -v '' @ shlex_quote name],
            captured = True,
            returncode = fst (sub (probe_argv ws name) True (world s))\<rparr>]\<rparr>)
   \<and> sh_words (''command -v '' @ shlex_quote name) = Some [''command'', ''-v'', name]"
proof
  show "sh_words (''command -v '' @ shlex_quote name) = Some [''command'', ''-v'', name]"
    unfolding scan_command_v quoted_word by simp
  show "command_in_container_available sub ws name s =
     (Inr (fst (sub (probe_argv ws name) True (world s)) = 0),
      s\<lparr>world := snd (sub (probe_argv ws name) True (world s)),
        calls := calls s @
          [\<lparr>args = [''devcontainer'', ''exec'', ''--workspace-folder'', ws, ''bash'', ''-c'',
                     ''command -v '' @ shlex_quote name],
            captured = True,
            returncode = fst (sub (probe_argv ws name) True (world s))\<rparr>]\<rparr>)"
    by (simp add: command_in_container_available_def bnd_def run_command_def ret_def
          split_def Let_def probe_argv_def)
qed

theorem probe_quotes_name_witness:
  "shlex_quote ''a b'; reboot'' = [squote] @ ''a b'' @ [squote, dquote, squote, dquote, squote]
      @ ''; reboot'' @ [squote]
   \<and> sh_words (''command -v '' @ shlex_quote ''a b'; reboot'')
      = Some [''command'', ''-v'', ''a b'; reboot'']"
  using probe_quotes_name [of "by_command (\<lambda>cmd cap. 0)" "''.''" "''a b'; reboot''" "fresh ()"]
  by (simp add: shlex_quote_def shlex_safe_def ascii_word_def squote_def)

end
